theory Spec2Isabelle
  imports Main "HOL-Library.AList"
begin

section \<open>JavaScript values\<close>

text \<open>
  The subject of a match expression is an arbitrary JavaScript value. The model keeps the
  kinds of value the library distinguishes (the \<^verbatim>\<open>typeof\<close> tests behind the wildcards,
  \<^verbatim>\<open>Array.isArray\<close>, \<^verbatim>\<open>=== undefined\<close>): primitives, arrays and plain objects. Numbers
  are integers. A plain object is its list of own properties in insertion order; its
  prototype is \<^verbatim>\<open>Object.prototype\<close>. Symbols and functions are represented by their
  identity only.
\<close>

type_synonym key = string

datatype val =
    VUndefined
  | VNull
  | VBoolean bool
  | VNumber int
  | VString string
  | VBigInt int
  | VSymbol nat
  | VArray "val list"
  | VObject "(key \<times> val) list"
  | VFunction nat

text \<open>
  \<^verbatim>\<open>Record<string, unknown>\<close>: the own properties of an object, in insertion order. (The
  language lists keys that are array indices before the others; the model keeps them where
  they were inserted.)
\<close>

type_synonym obj = "(key \<times> val) list"

text \<open>
  \<^verbatim>\<open>o[k]\<close> on the own properties: the property, or \<^verbatim>\<open>undefined\<close> when it is absent. This is
  how the model reads a field of a matched value, which is plain data (the specification's
  \<^verbatim>\<open>value[key]\<close>, \<^verbatim>\<open>undefined\<close> if absent): a field name that names a property of
  \<^verbatim>\<open>Object.prototype\<close>, which the language would find there, is read as absent.
\<close>

definition property :: "obj \<Rightarrow> key \<Rightarrow> val" where
  "property props k = (case map_of props k of Some x \<Rightarrow> x | None \<Rightarrow> VUndefined)"

text \<open>JavaScript truthiness, used wherever the source tests a value of type \<^verbatim>\<open>unknown\<close>.\<close>

fun truthy :: "val \<Rightarrow> bool" where
  "truthy VUndefined = False"
| "truthy VNull = False"
| "truthy (VBoolean b) = b"
| "truthy (VNumber n) = (n \<noteq> 0)"
| "truthy (VString s) = (s \<noteq> [])"
| "truthy (VBigInt n) = (n \<noteq> 0)"
| "truthy (VSymbol i) = True"
| "truthy (VArray vs) = True"
| "truthy (VObject props) = True"
| "truthy (VFunction f) = True"

text \<open>What the code throws: a \<^verbatim>\<open>TypeError\<close> of the language, or \<^verbatim>\<open>new Error(message)\<close>.\<close>

datatype error = TypeError | Error string

subsection \<open>Objects created by the library\<close>

text \<open>
  The library creates its selections objects with the literal \<^verbatim>\<open>{}\<close> and writes to them
  with \<^verbatim>\<open>selections[key] = value\<close>, where the key is any string a pattern selects under.
  Such an object is more than its own properties: it starts with the prototype
  \<^verbatim>\<open>Object.prototype\<close>, whose properties it inherits, and an assignment to the key
  \<^verbatim>\<open>__proto__\<close> runs the setter of \<^verbatim>\<open>Object.prototype\<close>, which replaces the prototype
  instead of adding a property. So an object created by the library is modelled by its own
  properties together with its prototype: \<^verbatim>\<open>Object.prototype\<close>, or the value (an object or
  \<^verbatim>\<open>null\<close>) that replaced it.
\<close>

datatype prototype = ObjectPrototype | ReplacedBy val

record js_object =
  own :: obj
  proto :: prototype

text \<open>The object literal \<^verbatim>\<open>{}\<close>.\<close>

definition empty_object :: js_object where
  "empty_object = \<lparr>own = [], proto = ObjectPrototype\<rparr>"

text \<open>
  The names of the properties of \<^verbatim>\<open>Object.prototype\<close> (with those of Annex B of the
  language standard, which every engine that runs the library defines). All are data
  properties that can be shadowed by assignment, except the accessor \<^verbatim>\<open>__proto__\<close>.
\<close>

definition Object_prototype_keys :: "key list" where
  "Object_prototype_keys =
     [''constructor'', ''__defineGetter__'', ''__defineSetter__'', ''hasOwnProperty'',
      ''__lookupGetter__'', ''__lookupSetter__'', ''isPrototypeOf'', ''propertyIsEnumerable'',
      ''toString'', ''valueOf'', ''__proto__'', ''toLocaleString'']"

text \<open>
  The setter of \<^verbatim>\<open>__proto__\<close> replaces the prototype when it is given an object or
  \<^verbatim>\<open>null\<close>, and does nothing when it is given any other value.
\<close>

definition is_object_or_null :: "val \<Rightarrow> bool" where
  "is_object_or_null v =
     (case v of VNull \<Rightarrow> True | VArray vs \<Rightarrow> True | VObject props \<Rightarrow> True
      | VFunction f \<Rightarrow> True | _ \<Rightarrow> False)"

text \<open>
  Whether an assignment to \<^verbatim>\<open>__proto__\<close>, on an object that has no own property of that
  name, finds the accessor of \<^verbatim>\<open>Object.prototype\<close> on the prototype chain. It does not
  when the prototype is \<^verbatim>\<open>null\<close> (the chain is empty), nor when the prototype is a plain
  object with an own property \<^verbatim>\<open>__proto__\<close> (as \<^verbatim>\<open>JSON.parse\<close> creates it), which is found
  first; the assignment then creates an own property like any other.
\<close>

definition reaches_proto_setter :: "prototype \<Rightarrow> bool" where
  "reaches_proto_setter p =
     (case p of
        ObjectPrototype \<Rightarrow> True
      | ReplacedBy VNull \<Rightarrow> False
      | ReplacedBy (VObject props) \<Rightarrow> map_of props ''__proto__'' = None
      | ReplacedBy _ \<Rightarrow> True)"

text \<open>
  A function object has the properties \<^verbatim>\<open>length\<close> and \<^verbatim>\<open>name\<close>, which are not writable,
  and \<^verbatim>\<open>arguments\<close> and \<^verbatim>\<open>caller\<close>, which are not writable or are accessors that throw.
  An object that inherits from a function cannot be assigned these keys: the library is module
  code, hence strict, and the assignment throws a \<^verbatim>\<open>TypeError\<close>. (Any other property a
  function may carry, such as the \<^verbatim>\<open>prototype\<close> of a class, which is not writable either,
  is outside the model; the inherited properties of plain objects and arrays are writable.)
\<close>

definition readonly_function_keys :: "key list" where
  "readonly_function_keys = [''length'', ''name'', ''arguments'', ''caller'']"

definition inherits_readonly :: "prototype \<Rightarrow> key \<Rightarrow> bool" where
  "inherits_readonly p key =
     (case p of
        ReplacedBy (VFunction f) \<Rightarrow> key \<in> set readonly_function_keys
      | _ \<Rightarrow> False)"

text \<open>
  \<^verbatim>\<open>target[key] = value\<close> on an object created by the library. An own property is
  updated in place. Otherwise the prototype chain decides: for \<^verbatim>\<open>__proto__\<close> the setter
  of \<^verbatim>\<open>Object.prototype\<close> runs, and no property is added; an inherited property that is
  not writable makes the assignment throw; in every other case the property is added after
  the existing ones.
\<close>

definition assign :: "key \<Rightarrow> val \<Rightarrow> js_object \<Rightarrow> error + js_object" where
  "assign key value target =
     (if map_of (own target) key \<noteq> None
      then Inr (target\<lparr>own := AList.update key value (own target)\<rparr>)
      else if key = ''__proto__'' \<and> reaches_proto_setter (proto target)
      then Inr (if is_object_or_null value then target\<lparr>proto := ReplacedBy value\<rparr> else target)
      else if inherits_readonly (proto target) key
      then Inl TypeError
      else Inr (target\<lparr>own := AList.update key value (own target)\<rparr>))"

text \<open>
  A function value passed to the builder: its identity and its behaviour on an argument
  list. An argument is a value or, for a handler, the \<^verbatim>\<open>selected\<close> object of its case.
  Callbacks are taken to be pure.
\<close>

datatype argument = Value val | Selected js_object

datatype jsfun = JSFunction (ref: nat) (body: "argument list \<Rightarrow> val")

definition call :: "jsfun \<Rightarrow> argument list \<Rightarrow> val" where
  "call f args = body f args"

section \<open>Patterns\<close>

text \<open>
  A pattern is a literal, an object shape, a tuple (array literal) or one of the matcher
  objects built by the combinators of the pattern library: \<^verbatim>\<open>optional\<close>, \<^verbatim>\<open>array\<close>,
  \<^verbatim>\<open>intersection\<close>, \<^verbatim>\<open>union\<close>, \<^verbatim>\<open>not\<close>, \<^verbatim>\<open>when\<close>, \<^verbatim>\<open>select\<close>. The source tags a
  matcher object by the property \<^verbatim>\<open>symbols.matcher\<close>; here each combinator is a constructor.
  The predicate of \<^verbatim>\<open>when\<close> has the source's type \<^verbatim>\<open>GuardFunction\<close>: it returns a boolean.
\<close>

datatype pattern =
    Literal val
  | ObjectShape "(key \<times> pattern) list"
  | ArrayShapeLiteral "pattern list"
  | P_optional pattern
  | P_array pattern
  | P_intersection "pattern list"
  | P_union "pattern list"
  | P_not pattern
  | P_when "val \<Rightarrow> bool"
  | P_select "key option"

text \<open>What a matcher's \<^verbatim>\<open>match\<close> returns: \<^verbatim>\<open>{ matched, selections? }\<close>.\<close>

record match_result =
  matched :: bool
  selections :: "js_object option"

text \<open>
  Modelled from the spec: the constant \<^verbatim>\<open>symbols.anonymousSelectKey\<close> is declared in
  \<^verbatim>\<open>internals/symbols\<close>, which is not among the sources. The spec calls it the one reserved
  anonymous key of a selections object. It is used as a property name of
  \<^verbatim>\<open>Record<string, unknown>\<close> objects and counted by \<^verbatim>\<open>Object.keys\<close>, so it is a string;
  being reserved, it is the name of no property of a built-in object.
\<close>

definition anonymousSelectKey :: key where
  "anonymousSelectKey = ''@ts-pattern/anonymous-select-key''"

subsection \<open>Array methods with a callback that writes selections\<close>

text \<open>
  \<^verbatim>\<open>xs.every(f)\<close> and \<^verbatim>\<open>xs.some(f)\<close>, where the callback \<open>f\<close> also updates a state (the
  selector it is given, with the object that selector writes to) and may throw. Both stop
  at the first element that decides the result, so the callbacks of later elements never
  run; a callback that throws ends the loop, and the state is as the callback left it.
  \<^verbatim>\<open>xs.forEach(f)\<close> runs the callback on every element unless one throws.
\<close>

fun Array_every ::
    "('a \<Rightarrow> 's \<Rightarrow> (error + bool) \<times> 's) \<Rightarrow> 'a list \<Rightarrow> 's \<Rightarrow> (error + bool) \<times> 's" where
  "Array_every f [] s = (Inr True, s)"
| "Array_every f (x # xs) s =
     (case f x s of
        (Inl e, s') \<Rightarrow> (Inl e, s')
      | (Inr b, s') \<Rightarrow> if b then Array_every f xs s' else (Inr False, s'))"

fun Array_some ::
    "('a \<Rightarrow> 's \<Rightarrow> (error + bool) \<times> 's) \<Rightarrow> 'a list \<Rightarrow> 's \<Rightarrow> (error + bool) \<times> 's" where
  "Array_some f [] s = (Inr False, s)"
| "Array_some f (x # xs) s =
     (case f x s of
        (Inl e, s') \<Rightarrow> (Inl e, s')
      | (Inr b, s') \<Rightarrow> if b then (Inr True, s') else Array_some f xs s')"

fun Array_forEach :: "('a \<Rightarrow> 's \<Rightarrow> error + 's) \<Rightarrow> 'a list \<Rightarrow> 's \<Rightarrow> error option \<times> 's" where
  "Array_forEach f [] s = (None, s)"
| "Array_forEach f (x # xs) s =
     (case f x s of
        Inl e \<Rightarrow> (Some e, s)
      | Inr s' \<Rightarrow> Array_forEach f xs s')"

lemma Array_every_cong [fundef_cong]:
  "xs = ys \<Longrightarrow> s = t \<Longrightarrow> (\<And>x u. x \<in> set ys \<Longrightarrow> f x u = g x u)
   \<Longrightarrow> Array_every f xs s = Array_every g ys t"
  by (induction ys arbitrary: xs s t) (auto split: prod.splits sum.splits)

lemma Array_some_cong [fundef_cong]:
  "xs = ys \<Longrightarrow> s = t \<Longrightarrow> (\<And>x u. x \<in> set ys \<Longrightarrow> f x u = g x u)
   \<Longrightarrow> Array_some f xs s = Array_some g ys t"
  by (induction ys arbitrary: xs s t) (auto split: prod.splits sum.splits)

text \<open>
  Modelled from the spec: \<^verbatim>\<open>flatMap\<close> is imported from \<^verbatim>\<open>internals/helpers\<close>, which is not
  among the sources; it maps and concatenates.
\<close>

definition flatMap :: "'a list \<Rightarrow> ('a \<Rightarrow> 'b list) \<Rightarrow> 'b list" where
  "flatMap xs f = concat (map f xs)"

lemma flatMap_cong [fundef_cong]:
  "xs = ys \<Longrightarrow> (\<And>x. x \<in> set ys \<Longrightarrow> f x = g x) \<Longrightarrow> flatMap xs f = flatMap ys g"
  by (simp add: flatMap_def cong: map_cong)

subsection \<open>Static selection keys\<close>

text \<open>
  Modelled from the spec: the dispatching helper \<^verbatim>\<open>getSelectionKeys\<close> of
  \<^verbatim>\<open>internals/helpers\<close> is not among the sources. By the spec the selection keys are a static
  property of a pattern's structure. For a matcher the helper asks the matcher itself, and
  those answers are in the source: \<^verbatim>\<open>optional\<close> and \<^verbatim>\<open>array\<close> pass the question on to
  their subpattern, \<^verbatim>\<open>intersection\<close> and \<^verbatim>\<open>union\<close> reduce their patterns with \<^verbatim>\<open>concat\<close>,
  \<^verbatim>\<open>not\<close> answers \<^verbatim>\<open>[]\<close>, \<^verbatim>\<open>select\<close> answers \<^verbatim>\<open>[key ?? symbols.anonymousSelectKey]\<close>, and
  \<^verbatim>\<open>when\<close> has no \<^verbatim>\<open>getSelectionKeys\<close> (no selections).
\<close>

fun getSelectionKeys :: "pattern \<Rightarrow> key list" where
  "getSelectionKeys (Literal v) = []"
| "getSelectionKeys (ObjectShape shape) = flatMap (map snd shape) getSelectionKeys"
| "getSelectionKeys (ArrayShapeLiteral elements) = flatMap elements getSelectionKeys"
| "getSelectionKeys (P_optional pattern) = getSelectionKeys pattern"
| "getSelectionKeys (P_array pattern) = getSelectionKeys pattern"
| "getSelectionKeys (P_intersection patterns) =
     foldl (\<lambda>acc p. acc @ getSelectionKeys p) [] patterns"
| "getSelectionKeys (P_union patterns) =
     foldl (\<lambda>acc p. acc @ getSelectionKeys p) [] patterns"
| "getSelectionKeys (P_not pattern) = []"
| "getSelectionKeys (P_when predicate) = []"
| "getSelectionKeys (P_select key) =
     [case key of Some k \<Rightarrow> k | None \<Rightarrow> anonymousSelectKey]"

subsection \<open>Selectors\<close>

text \<open>
  A selector is the callback \<^verbatim>\<open>(key, value) => ...\<close> handed to \<^verbatim>\<open>matchPattern\<close>. Each
  selector of the source is a closure over one selections object, to which it writes; the
  model represents a selector by its kind together with the present state of that object.
  The source has three kinds:
  \<^item> \<^verbatim>\<open>selections[key] = value\<close> (in \<^verbatim>\<open>optional\<close>, \<^verbatim>\<open>intersection\<close>, \<^verbatim>\<open>union\<close> and the
    builder's \<^verbatim>\<open>with\<close>): \<open>Assign\<close>;
  \<^item> \<^verbatim>\<open>selections[key] = (selections[key] || []).concat([value])\<close> (in \<^verbatim>\<open>array\<close>):
    \<open>Collect\<close>. The object it writes to is local to one \<^verbatim>\<open>match\<close> call and is written by
    this selector only, so its own properties hold arrays (its type in the source is
    \<^verbatim>\<open>Record<string, unknown[]>\<close>) and its prototype is \<^verbatim>\<open>Object.prototype\<close>;
  \<^item> \<^verbatim>\<open>() => {}\<close> (in \<^verbatim>\<open>not\<close>): \<open>Discard\<close>.
\<close>

datatype selector =
    Assign js_object
  | Collect "(key \<times> val list) list"
  | Discard

text \<open>
  The body of the collecting selector. It reads \<^verbatim>\<open>selections[key]\<close> first. An own
  property is an array, and the value is appended to it. Without an own property the read
  goes to \<^verbatim>\<open>Object.prototype\<close>: for one of its keys it yields a function (for
  \<^verbatim>\<open>__proto__\<close> the prototype object itself), which is truthy and has no method
  \<^verbatim>\<open>concat\<close>, so the call throws a \<^verbatim>\<open>TypeError\<close>; for any other key it yields
  \<^verbatim>\<open>undefined\<close>, and the property is created with the one value.
\<close>

definition collect ::
    "key \<Rightarrow> val \<Rightarrow> (key \<times> val list) list \<Rightarrow> error + (key \<times> val list) list" where
  "collect key value arrays =
     (case map_of arrays key of
        Some xs \<Rightarrow> Inr (AList.update key (xs @ [value]) arrays)
      | None \<Rightarrow>
          if key \<in> set Object_prototype_keys then Inl TypeError
          else Inr (AList.update key [value] arrays))"

text \<open>The call \<^verbatim>\<open>selector(key, value)\<close>.\<close>

fun call_selector :: "selector \<Rightarrow> key \<Rightarrow> val \<Rightarrow> error + selector" where
  "call_selector (Assign target) key value =
     (case assign key value target of Inl e \<Rightarrow> Inl e | Inr target' \<Rightarrow> Inr (Assign target'))"
| "call_selector (Collect arrays) key value =
     (case collect key value arrays of Inl e \<Rightarrow> Inl e | Inr arrays' \<Rightarrow> Inr (Collect arrays'))"
| "call_selector Discard key value = Inr Discard"

text \<open>
  The selections object of a selector, as it is now: what the code that created the
  selector reads from its variable \<^verbatim>\<open>selections\<close> (\<^verbatim>\<open>selected\<close> in the builder) after the
  calls. The selector of \<^verbatim>\<open>not\<close> has no such object, and nothing reads one.
\<close>

fun written :: "selector \<Rightarrow> js_object" where
  "written (Assign target) = target"
| "written (Collect arrays) =
     \<lparr>own = map (\<lambda>(key, xs). (key, VArray xs)) arrays, proto = ObjectPrototype\<rparr>"
| "written Discard = empty_object"

subsection \<open>The matchers and the match algorithm\<close>

text \<open>\<^verbatim>\<open>when(predicate)\<close>: \<^verbatim>\<open>match: (value) => ({ matched: predicate(value) })\<close>.\<close>

definition when_match :: "(val \<Rightarrow> bool) \<Rightarrow> val \<Rightarrow> match_result" where
  "when_match predicate value = \<lparr>matched = predicate value, selections = None\<rparr>"

text \<open>
  \<^verbatim>\<open>select(key?)\<close>: always matches and selects the value under the key. The selections are
  an object literal with a computed key, which defines an own property whatever the key
  is, \<^verbatim>\<open>__proto__\<close> included.
\<close>

definition select_match :: "key option \<Rightarrow> val \<Rightarrow> match_result" where
  "select_match key value =
     \<lparr>matched = True,
      selections =
        Some \<lparr>own = [(case key of Some k \<Rightarrow> k | None \<Rightarrow> anonymousSelectKey, value)],
              proto = ObjectPrototype\<rparr>\<rparr>"

text \<open>
  Modelled from the spec (4.1, the \<open>Matcher\<close> case of \<^verbatim>\<open>matchPattern\<close>): delegate to the
  matcher's own \<^verbatim>\<open>match\<close>; if it reports \<^verbatim>\<open>matched\<close> with a selections object, forward every
  entry (the own properties, as \<^verbatim>\<open>Object.keys\<close> lists them) through the selector; return
  its \<^verbatim>\<open>matched\<close> flag. Nothing is caught: what the matcher or the selector throws is
  thrown on.
\<close>

definition deliver :: "error + match_result \<Rightarrow> selector \<Rightarrow> (error + bool) \<times> selector" where
  "deliver result selector =
     (case result of
        Inl e \<Rightarrow> (Inl e, selector)
      | Inr r \<Rightarrow>
          if matched r
          then (case Array_forEach (\<lambda>(key, x) sel. call_selector sel key x)
                       (case selections r of Some sel \<Rightarrow> own sel | None \<Rightarrow> []) selector of
                  (Some e, sel) \<Rightarrow> (Inl e, sel)
                | (None, sel) \<Rightarrow> (Inr True, sel))
          else (Inr False, selector))"

text \<open>
  Modelled from the spec: \<^verbatim>\<open>matchPattern\<close> is imported from \<^verbatim>\<open>internals/helpers\<close>, which is
  not among the sources. Its equations follow section 4.1 of the spec: a literal matches by
  equality; an object shape fails on anything that is not a keyed record (a plain object)
  and otherwise matches every declared key against \<^verbatim>\<open>value[key]\<close> (\<^verbatim>\<open>undefined\<close> when
  absent), in order, stopping at the first field that fails and passing the selector on to
  the fields; a tuple fails unless the value is an array of the same length and otherwise
  matches position by position; a matcher is delegated to (\<open>deliver\<close>). The result is what
  \<^verbatim>\<open>matchPattern\<close> returns or throws, together with the selector as the calls left it.

  \<^verbatim>\<open>matchPattern\<close> and the \<^verbatim>\<open>match\<close> closures of the recursive combinators call each
  other. The five \<open>_match\<close> functions are the source's \<^verbatim>\<open>match\<close> closures of \<^verbatim>\<open>optional\<close>,
  \<^verbatim>\<open>array\<close>, \<^verbatim>\<open>intersection\<close>, \<^verbatim>\<open>union\<close> and \<^verbatim>\<open>not\<close>, each applied to the argument of
  its combinator. Each starts from its own empty \<^verbatim>\<open>selections\<close> object.
\<close>

function matchPattern :: "pattern \<Rightarrow> val \<Rightarrow> selector \<Rightarrow> (error + bool) \<times> selector"
  and optional_match :: "pattern \<Rightarrow> val \<Rightarrow> error + match_result"
  and array_match :: "pattern \<Rightarrow> val \<Rightarrow> error + match_result"
  and intersection_match :: "pattern list \<Rightarrow> val \<Rightarrow> error + match_result"
  and union_match :: "pattern list \<Rightarrow> val \<Rightarrow> error + match_result"
  and not_match :: "pattern \<Rightarrow> val \<Rightarrow> error + match_result"
where
  "matchPattern (Literal v) value selector = (Inr (value = v), selector)"
| "matchPattern (ObjectShape shape) value selector =
     (case value of
        VObject props \<Rightarrow>
          Array_every (\<lambda>(k, sub). matchPattern sub (property props k)) shape selector
      | _ \<Rightarrow> (Inr False, selector))"
| "matchPattern (ArrayShapeLiteral elements) value selector =
     (case value of
        VArray vs \<Rightarrow>
          if length elements = length vs
          then Array_every (\<lambda>(sub, v). matchPattern sub v) (zip elements vs) selector
          else (Inr False, selector)
      | _ \<Rightarrow> (Inr False, selector))"
| "matchPattern (P_optional pattern) value selector =
     deliver (optional_match pattern value) selector"
| "matchPattern (P_array pattern) value selector =
     deliver (array_match pattern value) selector"
| "matchPattern (P_intersection patterns) value selector =
     deliver (intersection_match patterns value) selector"
| "matchPattern (P_union patterns) value selector =
     deliver (union_match patterns value) selector"
| "matchPattern (P_not pattern) value selector =
     deliver (not_match pattern value) selector"
| "matchPattern (P_when predicate) value selector =
     deliver (Inr (when_match predicate value)) selector"
| "matchPattern (P_select key) value selector =
     deliver (Inr (select_match key value)) selector"
| "optional_match pattern value =
     (if value = VUndefined
      then (case Array_forEach (\<lambda>key sel. call_selector sel key VUndefined)
                   (getSelectionKeys pattern) (Assign empty_object) of
              (Some e, sel) \<Rightarrow> Inl e
            | (None, sel) \<Rightarrow> Inr \<lparr>matched = True, selections = Some (written sel)\<rparr>)
      else (case matchPattern pattern value (Assign empty_object) of
              (Inl e, sel) \<Rightarrow> Inl e
            | (Inr m, sel) \<Rightarrow> Inr \<lparr>matched = m, selections = Some (written sel)\<rparr>))"
| "array_match pattern value =
     (case value of
        VArray vs \<Rightarrow>
          (case Array_every (\<lambda>v. matchPattern pattern v) vs (Collect []) of
             (Inl e, sel) \<Rightarrow> Inl e
           | (Inr m, sel) \<Rightarrow> Inr \<lparr>matched = m, selections = Some (written sel)\<rparr>)
      | _ \<Rightarrow> Inr \<lparr>matched = False, selections = None\<rparr>)"
| "intersection_match patterns value =
     (case Array_every (\<lambda>p. matchPattern p value) patterns (Assign empty_object) of
        (Inl e, sel) \<Rightarrow> Inl e
      | (Inr m, sel) \<Rightarrow> Inr \<lparr>matched = m, selections = Some (written sel)\<rparr>)"
| "union_match patterns value =
     (case Array_forEach (\<lambda>key sel. call_selector sel key VUndefined)
             (flatMap patterns getSelectionKeys) (Assign empty_object) of
        (Some e, sel) \<Rightarrow> Inl e
      | (None, seeded) \<Rightarrow>
          (case Array_some (\<lambda>p. matchPattern p value) patterns seeded of
             (Inl e, sel) \<Rightarrow> Inl e
           | (Inr m, sel) \<Rightarrow> Inr \<lparr>matched = m, selections = Some (written sel)\<rparr>))"
| "not_match pattern value =
     (case matchPattern pattern value Discard of
        (Inl e, sel) \<Rightarrow> Inl e
      | (Inr m, sel) \<Rightarrow> Inr \<lparr>matched = \<not> m, selections = None\<rparr>)"
  by pat_completeness auto

lemma size_member_pattern: "p \<in> set ps \<Longrightarrow> size p \<le> size_list size ps"
  by (induction ps) auto

lemma size_member_shape:
  "(k, p) \<in> set shape \<Longrightarrow> size p \<le> size_list (size_prod (\<lambda>_. 0) size) shape"
  by (induction shape) auto

termination matchPattern
  apply (relation "measure (\<lambda>x. case x of
          Inl (Inl (p, _)) \<Rightarrow> 2 * size p
        | Inl (Inr (Inl (p, _))) \<Rightarrow> 2 * size p + 1
        | Inl (Inr (Inr (p, _))) \<Rightarrow> 2 * size p + 1
        | Inr (Inl (ps, _)) \<Rightarrow> 2 * size_list size ps + 1
        | Inr (Inr (Inl (ps, _))) \<Rightarrow> 2 * size_list size ps + 1
        | Inr (Inr (Inr (p, _))) \<Rightarrow> 2 * size p + 1)")
  apply simp_all
  subgoal for shape v props x k sub using size_member_shape [of k sub shape] by simp
  subgoal for elements v vs x sub e using size_member_pattern [of sub elements]
    by (auto dest: set_zip_leftD)
  subgoal for patterns x using size_member_pattern [of x patterns] by simp
  subgoal for patterns x y p using size_member_pattern [of p patterns] by simp
  done

text \<open>
  Whether a pattern matches a value: \<^verbatim>\<open>matchPattern\<close> returns \<^verbatim>\<open>true\<close>. The selector is
  fixed to the one that does nothing and cannot throw. With any other selector
  \<^verbatim>\<open>matchPattern\<close> returns the same, unless the selector throws (\<open>matchPattern_selector\<close>
  below).
\<close>

definition matches :: "pattern \<Rightarrow> val \<Rightarrow> bool" where
  "matches p v = (fst (matchPattern p v Discard) = Inr True)"

subsection \<open>Patterns that select under ordinary keys\<close>

text \<open>
  Every key under which a \<^verbatim>\<open>select\<close> of the pattern selects, at any depth (under
  \<^verbatim>\<open>not\<close> as well: its subpattern runs like any other, with a selector that does
  nothing). A pattern is ordinary when none of these keys names a property of
  \<^verbatim>\<open>Object.prototype\<close>; the anonymous key is none of them. A selections object is clean
  when none of its own keys names such a property and its prototype is not a function;
  the object \<^verbatim>\<open>{}\<close> is clean. These notions serve to state for which patterns the match
  algorithm never throws (\<open>ordinary_returns\<close> below).
\<close>

fun select_keys :: "pattern \<Rightarrow> key list" where
  "select_keys (Literal v) = []"
| "select_keys (ObjectShape shape) = flatMap (map snd shape) select_keys"
| "select_keys (ArrayShapeLiteral elements) = flatMap elements select_keys"
| "select_keys (P_optional pattern) = select_keys pattern"
| "select_keys (P_array pattern) = select_keys pattern"
| "select_keys (P_intersection patterns) = flatMap patterns select_keys"
| "select_keys (P_union patterns) = flatMap patterns select_keys"
| "select_keys (P_not pattern) = select_keys pattern"
| "select_keys (P_when predicate) = []"
| "select_keys (P_select key) = [case key of Some k \<Rightarrow> k | None \<Rightarrow> anonymousSelectKey]"

definition ordinary :: "pattern \<Rightarrow> bool" where
  "ordinary p = (set (select_keys p) \<inter> set Object_prototype_keys = {})"

definition clean_object :: "js_object \<Rightarrow> bool" where
  "clean_object target =
     (set (map fst (own target)) \<inter> set Object_prototype_keys = {}
      \<and> (case proto target of ReplacedBy (VFunction f) \<Rightarrow> False | _ \<Rightarrow> True))"

definition clean :: "selector \<Rightarrow> bool" where
  "clean selector = clean_object (written selector)"

text \<open>
  A matcher's \<^verbatim>\<open>match\<close> returned, and no own key of the selections it reports names a
  property of \<^verbatim>\<open>Object.prototype\<close>.
\<close>

definition good :: "error + match_result \<Rightarrow> bool" where
  "good result =
     (case result of
        Inl e \<Rightarrow> False
      | Inr r \<Rightarrow> (case selections r of
                   Some target \<Rightarrow> set (map fst (own target)) \<inter> set Object_prototype_keys = {}
                 | None \<Rightarrow> True))"

text \<open>
  What the object of a selector holds under one name: its own property of that name and,
  for the name \<^verbatim>\<open>__proto__\<close>, its prototype (the only name whose assignment can change
  it). A result of a \<^verbatim>\<open>match\<close> reports a key when it returned selections that have an own
  property of that name. Both serve to state that the match algorithm writes under the
  selection keys of the pattern only (\<open>writes_within_keys\<close> below).
\<close>

definition slot :: "key \<Rightarrow> selector \<Rightarrow> val option \<times> prototype option" where
  "slot k selector =
     (map_of (own (written selector)) k,
      if k = ''__proto__'' then Some (proto (written selector)) else None)"

definition reports :: "error + match_result \<Rightarrow> key \<Rightarrow> bool" where
  "reports result k =
     (case result of
        Inl e \<Rightarrow> False
      | Inr r \<Rightarrow> (case selections r of Some target \<Rightarrow> map_of (own target) k \<noteq> None
                  | None \<Rightarrow> False))"

subsection \<open>Wildcards\<close>

text \<open>
  The wildcards are \<^verbatim>\<open>when\<close> applied to a \<^verbatim>\<open>typeof\<close> test (\<^verbatim>\<open>__\<close>, \<^verbatim>\<open>string\<close>, \<^verbatim>\<open>number\<close>,
  \<^verbatim>\<open>boolean\<close>, \<^verbatim>\<open>bigint\<close>, \<^verbatim>\<open>symbol\<close>, \<^verbatim>\<open>nullish\<close> in the source).
\<close>

definition isUnknown :: "val \<Rightarrow> bool" where
  "isUnknown x = True"

definition isNumber :: "val \<Rightarrow> bool" where
  "isNumber x = (case x of VNumber n \<Rightarrow> True | _ \<Rightarrow> False)"

definition isString :: "val \<Rightarrow> bool" where
  "isString x = (case x of VString s \<Rightarrow> True | _ \<Rightarrow> False)"

definition isBoolean :: "val \<Rightarrow> bool" where
  "isBoolean x = (case x of VBoolean b \<Rightarrow> True | _ \<Rightarrow> False)"

definition isBigInt :: "val \<Rightarrow> bool" where
  "isBigInt x = (case x of VBigInt n \<Rightarrow> True | _ \<Rightarrow> False)"

definition isSymbol :: "val \<Rightarrow> bool" where
  "isSymbol x = (case x of VSymbol i \<Rightarrow> True | _ \<Rightarrow> False)"

definition isNullish :: "val \<Rightarrow> bool" where
  "isNullish x = (x = VNull \<or> x = VUndefined)"

definition P_any :: pattern where "P_any = P_when isUnknown"
definition P_string :: pattern where "P_string = P_when isString"
definition P_number :: pattern where "P_number = P_when isNumber"
definition P_boolean :: pattern where "P_boolean = P_when isBoolean"
definition P_bigint :: pattern where "P_bigint = P_when isBigInt"
definition P_symbol :: pattern where "P_symbol = P_when isSymbol"
definition P_nullish :: pattern where "P_nullish = P_when isNullish"

section \<open>The platform: turning a value into text\<close>

text \<open>
  When no case matches, \<^verbatim>\<open>run\<close> builds its message with \<^verbatim>\<open>JSON.stringify(value)\<close> inside
  a \<^verbatim>\<open>try\<close> and then interpolates the result into a template literal, which applies
  the language's \<^verbatim>\<open>ToString\<close>. Both are built-ins of the language, not code of the
  library. The model fixes when they throw and leaves the text they produce to a parameter:
  \<^item> \<^verbatim>\<open>JSON.stringify\<close> throws a \<^verbatim>\<open>TypeError\<close> when it reaches a BigInt (through array
    elements and property values); it returns \<^verbatim>\<open>undefined\<close> for \<^verbatim>\<open>undefined\<close>, a symbol or
    a function, and a string otherwise. (It also throws on a cyclic structure, which a
    value of type \<open>val\<close> cannot be.)
  \<^item> \<^verbatim>\<open>ToString\<close> throws a \<^verbatim>\<open>TypeError\<close> on a symbol; on an array it joins the
    \<^verbatim>\<open>ToString\<close> of the elements, so it throws when an element does; a plain object
    gives \<^verbatim>\<open>[object Object]\<close> whatever it holds.
  Objects are plain data: own properties that would replace \<^verbatim>\<open>toString\<close>, \<^verbatim>\<open>valueOf\<close> or
  \<^verbatim>\<open>toJSON\<close> are outside the model.
\<close>

fun serializable :: "val \<Rightarrow> bool" where
  "serializable (VBigInt n) = False"
| "serializable (VArray vs) = (\<forall>v \<in> set vs. serializable v)"
| "serializable (VObject props) = (\<forall>v \<in> set (map snd props). serializable v)"
| "serializable v = True"

fun stringable :: "val \<Rightarrow> bool" where
  "stringable (VSymbol i) = False"
| "stringable (VArray vs) = (\<forall>v \<in> set vs. stringable v)"
| "stringable v = True"

record platform =
  json_text :: "val \<Rightarrow> string"
  string_text :: "val \<Rightarrow> string"

definition JSON_stringify :: "platform \<Rightarrow> val \<Rightarrow> error + val" where
  "JSON_stringify pf v =
     (if \<not> serializable v then Inl TypeError
      else case v of
             VUndefined \<Rightarrow> Inr VUndefined
           | VSymbol i \<Rightarrow> Inr VUndefined
           | VFunction f \<Rightarrow> Inr VUndefined
           | _ \<Rightarrow> Inr (VString (json_text pf v)))"

definition ToString :: "platform \<Rightarrow> val \<Rightarrow> error + string" where
  "ToString pf v =
     (case v of
        VString s \<Rightarrow> Inr s
      | VUndefined \<Rightarrow> Inr ''undefined''
      | _ \<Rightarrow> if stringable v then Inr (string_text pf v) else Inl TypeError)"

section \<open>The expression builder\<close>

text \<open>
  Every call of \<^verbatim>\<open>with\<close> creates one object \<^verbatim>\<open>selected\<close>, which the case's \<^verbatim>\<open>test\<close>
  writes and its \<^verbatim>\<open>select\<close> reads; it lives as long as the case does. The model keeps
  these objects in a store, by address. A case is the source's record of three closures;
  \<^verbatim>\<open>test\<close> returns a value of type \<^verbatim>\<open>unknown\<close> or throws, and may update the store.
\<close>

type_synonym store = "nat \<Rightarrow> js_object"

record entry =
  test :: "val \<Rightarrow> store \<Rightarrow> (error + val) \<times> store"
  select :: "val \<Rightarrow> store \<Rightarrow> argument"
  handler :: jsfun

text \<open>
  The three things a test can do on a value, in a store: return a truthy value, return a
  falsy value, throw.
\<close>

definition succeeds :: "entry \<Rightarrow> val \<Rightarrow> store \<Rightarrow> bool" where
  "succeeds c v st = (case fst (test c v st) of Inr r \<Rightarrow> truthy r | Inl e \<Rightarrow> False)"

definition rejects :: "entry \<Rightarrow> val \<Rightarrow> store \<Rightarrow> bool" where
  "rejects c v st = (case fst (test c v st) of Inr r \<Rightarrow> \<not> truthy r | Inl e \<Rightarrow> False)"

definition throws :: "entry \<Rightarrow> val \<Rightarrow> store \<Rightarrow> bool" where
  "throws c v st = (case fst (test c v st) of Inr r \<Rightarrow> False | Inl e \<Rightarrow> True)"

text \<open>The object returned by \<^verbatim>\<open>builder(value, cases)\<close>: it closes over its two arguments.\<close>

record match_builder =
  bound_value :: val
  cases :: "entry list"

text \<open>
  The world threaded through the builder's operations: the store of \<^verbatim>\<open>selected\<close> objects,
  the next free address, and a trace. The trace is ghost state: it records, by the index of
  the case, each call of a \<^verbatim>\<open>test\<close> and of a \<^verbatim>\<open>handler\<close> that \<^verbatim>\<open>run\<close> makes, so that
  statements about what is and is not invoked can be made.
\<close>

datatype event = TestCalled nat | HandlerCalled nat

record world =
  store :: store
  fresh :: nat
  trace :: "event list"

definition builder :: "val \<Rightarrow> entry list \<Rightarrow> match_builder" where
  "builder value cs = \<lparr>bound_value = value, cases = cs\<rparr>"

definition match :: "val \<Rightarrow> match_builder" where
  "match value = builder value []"

text \<open>
  \<^verbatim>\<open>cases.find(({ test }) => test(value))\<close>: the tests run in order, each in the store the
  earlier ones left, up to the first whose result is truthy. A test that throws ends the
  scan; what it throws is thrown on.
\<close>

fun find_entry ::
    "entry list \<Rightarrow> nat \<Rightarrow> val \<Rightarrow> world \<Rightarrow> (error + (nat \<times> entry) option) \<times> world" where
  "find_entry [] i value w = (Inr None, w)"
| "find_entry (c # cs) i value w =
     (case test c value (store w) of
        (Inl e, st) \<Rightarrow> (Inl e, w\<lparr>store := st, trace := trace w @ [TestCalled i]\<rparr>)
      | (Inr r, st) \<Rightarrow>
          if truthy r
          then (Inr (Some (i, c)), w\<lparr>store := st, trace := trace w @ [TestCalled i]\<rparr>)
          else find_entry cs (Suc i) value (w\<lparr>store := st, trace := trace w @ [TestCalled i]\<rparr>))"

text \<open>
  \<^verbatim>\<open>run\<close>. Without a matching entry it throws \<^verbatim>\<open>new Error(...)\<close>, the spec's
  UnhandledMatchError; only \<^verbatim>\<open>JSON.stringify\<close> is inside the \<^verbatim>\<open>try\<close>, the template literal
  is evaluated after it. With an entry it returns \<^verbatim>\<open>entry.handler(entry.select(value), value)\<close>.
\<close>

definition run :: "platform \<Rightarrow> match_builder \<Rightarrow> world \<Rightarrow> (error + val) \<times> world" where
  "run pf b w =
     (case find_entry (cases b) 0 (bound_value b) w of
        (Inl e, w') \<Rightarrow> (Inl e, w')
      | (Inr None, w') \<Rightarrow>
          (let displayedValue =
                 (case JSON_stringify pf (bound_value b) of
                    Inr text \<Rightarrow> text
                  | Inl e \<Rightarrow> bound_value b)
           in (case ToString pf displayedValue of
                 Inl e \<Rightarrow> Inl e
               | Inr text \<Rightarrow>
                   Inl (Error (''Pattern matching error: no pattern matches value '' @ text)),
               w'))
      | (Inr (Some (i, c)), w') \<Rightarrow>
          (Inr (call (handler c) [select c (bound_value b) (store w'), Value (bound_value b)]),
           w'\<lparr>trace := trace w' @ [HandlerCalled i]\<rparr>))"

text \<open>
  An argument of \<^verbatim>\<open>with\<close> (\<^verbatim>\<open>...args: any[]\<close>) is a pattern or a function; an argument
  that is a function is always given as \<open>FunctionArg\<close>, with its behaviour. A function that
  ends up in \<^verbatim>\<open>patterns\<close> is no object, so \<^verbatim>\<open>matchPattern\<close> compares it with the value by
  identity (the spec's fallback: reference equality).
\<close>

datatype arg = PatternArg pattern | FunctionArg jsfun

fun as_pattern :: "arg \<Rightarrow> pattern" where
  "as_pattern (PatternArg p) = p"
| "as_pattern (FunctionArg f) = Literal (VFunction (ref f))"

text \<open>
  The closure \<^verbatim>\<open>doesMatch\<close> of \<^verbatim>\<open>with\<close>, over its \<^verbatim>\<open>patterns\<close>, its \<^verbatim>\<open>predicates\<close> and the
  address of its \<^verbatim>\<open>selected\<close>. The selector of every listed pattern writes to that one
  object, which is never reset.
\<close>

definition doesMatch ::
    "pattern list \<Rightarrow> jsfun list \<Rightarrow> nat \<Rightarrow> val \<Rightarrow> store \<Rightarrow> (error + val) \<times> store" where
  "doesMatch patterns predicates selected value st =
     (case Array_some (\<lambda>pattern. matchPattern pattern value) patterns (Assign (st selected)) of
        (Inl e, sel) \<Rightarrow> (Inl e, st(selected := written sel))
      | (Inr m, sel) \<Rightarrow>
          (Inr (VBoolean
                  (m \<and> list_all (\<lambda>predicate. truthy (call predicate [Value value])) predicates)),
           st(selected := written sel)))"

text \<open>
  The \<^verbatim>\<open>in\<close> operator and the property read of the \<^verbatim>\<open>select\<close> closure, for the
  anonymous key. The key is found among the own properties, or else along the prototype
  chain. No built-in prototype and no array or function has a property of that name, so it
  is inherited only when the prototype has been replaced by a plain object that has it.
\<close>

definition inherited_anonymous :: "prototype \<Rightarrow> val option" where
  "inherited_anonymous p =
     (case p of
        ReplacedBy (VObject props) \<Rightarrow> map_of props anonymousSelectKey
      | _ \<Rightarrow> None)"

definition lookup_anonymous :: "js_object \<Rightarrow> val option" where
  "lookup_anonymous target =
     (case map_of (own target) anonymousSelectKey of
        Some x \<Rightarrow> Some x
      | None \<Rightarrow> inherited_anonymous (proto target))"

text \<open>
  The \<^verbatim>\<open>select\<close> closure of a case built by \<^verbatim>\<open>with\<close>. \<^verbatim>\<open>Object.keys\<close> lists the own
  properties; the handler is given the value found under the anonymous key, or the object
  \<^verbatim>\<open>selected\<close> itself, or the whole value.
\<close>

definition with_select :: "nat \<Rightarrow> val \<Rightarrow> store \<Rightarrow> argument" where
  "with_select selected value st =
     (if length (map fst (own (st selected))) \<noteq> 0
      then (case lookup_anonymous (st selected) of
              Some x \<Rightarrow> Value x
            | None \<Rightarrow> Selected (st selected))
      else Value value)"

text \<open>
  \<^verbatim>\<open>with(...args)\<close>. The handler is the last argument; \<open>args\<close> here are the arguments
  before it, so the source's \<^verbatim>\<open>args.length === 3 && typeof args[1] === 'function'\<close> reads:
  two arguments before the handler, the second a function. Then the first is the only
  pattern and the second the only predicate; in every other case all arguments before the
  handler are patterns and there is no predicate. \<open>with_arguments\<close> is this split into
  \<^verbatim>\<open>patterns\<close> and \<^verbatim>\<open>predicates\<close>.
\<close>

definition with_arguments :: "arg list \<Rightarrow> pattern list \<times> jsfun list" where
  "with_arguments args =
     (case args of
        [a0, FunctionArg guard] \<Rightarrow> ([as_pattern a0], [guard])
      | _ \<Rightarrow> (map as_pattern args, []))"

definition builder_with ::
    "arg list \<Rightarrow> jsfun \<Rightarrow> match_builder \<Rightarrow> world \<Rightarrow> match_builder \<times> world" where
  "builder_with args h b w =
     (case with_arguments args of
        (patterns, predicates) \<Rightarrow>
          (builder (bound_value b)
             (cases b @
                [\<lparr>test = doesMatch patterns predicates (fresh w),
                  select = with_select (fresh w),
                  handler = h\<rparr>]),
           w\<lparr>store := (store w)(fresh w := empty_object), fresh := Suc (fresh w)\<rparr>))"

text \<open>\<^verbatim>\<open>when(predicate, handler)\<close>: the predicate itself is the test.\<close>

definition builder_when ::
    "jsfun \<Rightarrow> jsfun \<Rightarrow> match_builder \<Rightarrow> world \<Rightarrow> match_builder \<times> world" where
  "builder_when predicate h b w =
     (builder (bound_value b)
        (cases b @
           [\<lparr>test = (\<lambda>value st. (Inr (call predicate [Value value]), st)),
             select = (\<lambda>value st. Value value),
             handler = h\<rparr>]),
      w)"

text \<open>\<^verbatim>\<open>otherwise(handler)\<close> appends a case whose test is \<^verbatim>\<open>() => true\<close> and runs.\<close>

definition otherwise ::
    "platform \<Rightarrow> jsfun \<Rightarrow> match_builder \<Rightarrow> world \<Rightarrow> (error + val) \<times> world" where
  "otherwise pf h b w =
     run pf
       (builder (bound_value b)
          (cases b @
             [\<lparr>test = (\<lambda>value st. (Inr (VBoolean True), st)),
               select = (\<lambda>value st. Value value),
               handler = h\<rparr>]))
       w"

definition exhaustive :: "platform \<Rightarrow> match_builder \<Rightarrow> world \<Rightarrow> (error + val) \<times> world" where
  "exhaustive pf b w = run pf b w"

subsection \<open>The handler's first argument, as the specification words it\<close>


text \<open>
  A handler used in the examples: it returns its arguments as a list, an object argument
  by its own properties.
\<close>

definition own_properties :: "argument \<Rightarrow> val" where
  "own_properties a = (case a of Value v \<Rightarrow> v | Selected target \<Rightarrow> VObject (own target))"

definition list_arguments :: "argument list \<Rightarrow> val" where
  "list_arguments args = VArray (map own_properties args)"

section \<open>Properties of the match algorithm\<close>

text \<open>
  Induction over the calls of \<^verbatim>\<open>matchPattern\<close>, for properties that say nothing about the
  \<open>_match\<close> functions.
\<close>

lemmas matchPattern_induct =
  matchPattern_optional_match_array_match_intersection_match_union_match_not_match.induct(1)
    [where ?P2.0 = "\<lambda>_ _. True" and ?P3.0 = "\<lambda>_ _. True" and ?P4.0 = "\<lambda>_ _. True"
       and ?P5.0 = "\<lambda>_ _. True" and ?P6.0 = "\<lambda>_ _. True", simplified]

text \<open>
  The selector that does nothing stays what it is. With any selector, \<^verbatim>\<open>matchPattern\<close>
  either throws or returns what it returns with the selector that does nothing: the
  selector influences the result only by throwing.
\<close>

lemma Array_every_fixed:
  "(\<And>x. x \<in> set xs \<Longrightarrow> snd (f x s) = s) \<Longrightarrow> snd (Array_every f xs s) = s"
proof (induction xs)
  case Nil
  show ?case by simp
next
  case (Cons x xs)
  obtain r t where t: "f x s = (r, t)" by (cases "f x s")
  have "t = s" using Cons.prems [of x] t by simp
  then show ?case using t Cons by (cases r) auto
qed

lemma Array_some_fixed:
  "(\<And>x. x \<in> set xs \<Longrightarrow> snd (f x s) = s) \<Longrightarrow> snd (Array_some f xs s) = s"
proof (induction xs)
  case Nil
  show ?case by simp
next
  case (Cons x xs)
  obtain r t where t: "f x s = (r, t)" by (cases "f x s")
  have "t = s" using Cons.prems [of x] t by simp
  then show ?case using t Cons by (cases r) auto
qed

lemma forEach_Discard:
  "Array_forEach (\<lambda>(key, x) sel. call_selector sel key x) xs Discard = (None, Discard)"
  by (induction xs) auto

lemma deliver_Discard: "snd (deliver r Discard) = Discard"
  by (simp add: deliver_def forEach_Discard split: sum.splits)

lemma matchPattern_Discard: "selector = Discard \<longrightarrow> snd (matchPattern p v selector) = Discard"
proof (induction p v selector rule: matchPattern_induct)
  case (2 shape v selector)
  show ?case
  proof (cases v)
    case (VObject props)
    show ?thesis
    proof
      assume sel: "selector = Discard"
      have "snd (Array_every (\<lambda>(k, sub). matchPattern sub (property props k)) shape Discard) = Discard"
        by (rule Array_every_fixed) (use 2 [OF VObject] in auto)
      then show "snd (matchPattern (ObjectShape shape) v selector) = Discard"
        using VObject sel by simp
    qed
  qed simp_all
next
  case (3 elements v selector)
  show ?case
  proof (cases v)
    case (VArray vs)
    show ?thesis
    proof
      assume sel: "selector = Discard"
      have "snd (Array_every (\<lambda>(sub, e). matchPattern sub e) (zip elements vs) Discard) = Discard"
        if "length elements = length vs"
        by (rule Array_every_fixed) (use 3 [OF VArray that] in auto)
      then show "snd (matchPattern (ArrayShapeLiteral elements) v selector) = Discard"
        using VArray sel by simp
    qed
  qed simp_all
qed (simp_all add: deliver_Discard)

lemma Array_every_agree:
  assumes "\<And>x s. x \<in> set xs \<Longrightarrow> (\<exists>e. fst (f x s) = Inl e) \<or> fst (f x s) = fst (f x d)"
    and "\<And>x. x \<in> set xs \<Longrightarrow> snd (f x d) = d"
  shows "(\<exists>e. fst (Array_every f xs s) = Inl e) \<or> fst (Array_every f xs s) = fst (Array_every f xs d)"
  using assms
proof (induction xs arbitrary: s)
  case Nil
  show ?case by simp
next
  case (Cons x xs)
  obtain r t where t: "f x s = (r, t)" by (cases "f x s")
  obtain r0 where d: "f x d = (r0, d)" using Cons.prems(2) [of x] by (cases "f x d") auto
  from Cons.prems(1) [of x s] t d have r: "(\<exists>e. r = Inl e) \<or> r = r0" by simp
  have IH: "(\<exists>e. fst (Array_every f xs t) = Inl e)
            \<or> fst (Array_every f xs t) = fst (Array_every f xs d)"
    by (rule Cons.IH) (use Cons.prems in auto)
  show ?case
  proof (cases r)
    case (Inl e)
    then show ?thesis using t by simp
  next
    case (Inr b)
    then have "r0 = Inr b" using r by auto
    then show ?thesis using t d Inr IH by simp
  qed
qed

lemma Array_some_agree:
  assumes "\<And>x s. x \<in> set xs \<Longrightarrow> (\<exists>e. fst (f x s) = Inl e) \<or> fst (f x s) = fst (f x d)"
    and "\<And>x. x \<in> set xs \<Longrightarrow> snd (f x d) = d"
  shows "(\<exists>e. fst (Array_some f xs s) = Inl e) \<or> fst (Array_some f xs s) = fst (Array_some f xs d)"
  using assms
proof (induction xs arbitrary: s)
  case Nil
  show ?case by simp
next
  case (Cons x xs)
  obtain r t where t: "f x s = (r, t)" by (cases "f x s")
  obtain r0 where d: "f x d = (r0, d)" using Cons.prems(2) [of x] by (cases "f x d") auto
  from Cons.prems(1) [of x s] t d have r: "(\<exists>e. r = Inl e) \<or> r = r0" by simp
  have IH: "(\<exists>e. fst (Array_some f xs t) = Inl e)
            \<or> fst (Array_some f xs t) = fst (Array_some f xs d)"
    by (rule Cons.IH) (use Cons.prems in auto)
  show ?case
  proof (cases r)
    case (Inl e)
    then show ?thesis using t by simp
  next
    case (Inr b)
    then have "r0 = Inr b" using r by auto
    then show ?thesis using t d Inr IH by simp
  qed
qed

lemma deliver_agree:
  "(\<exists>e. fst (deliver r selector) = Inl e) \<or> fst (deliver r selector) = fst (deliver r Discard)"
  by (auto simp: deliver_def forEach_Discard split: sum.splits prod.splits option.splits)

lemma matchPattern_selector:
  "(\<exists>e. fst (matchPattern p v selector) = Inl e)
   \<or> fst (matchPattern p v selector) = fst (matchPattern p v Discard)"
proof (induction p v selector rule: matchPattern_induct)
  case (2 shape v selector)
  show ?case
  proof (cases v)
    case (VObject props)
    have "(\<exists>e. fst (Array_every (\<lambda>(k, sub). matchPattern sub (property props k)) shape selector) = Inl e)
          \<or> fst (Array_every (\<lambda>(k, sub). matchPattern sub (property props k)) shape selector)
            = fst (Array_every (\<lambda>(k, sub). matchPattern sub (property props k)) shape Discard)"
    proof (rule Array_every_agree)
      fix x s assume x: "x \<in> set shape"
      obtain k sub where xs: "x = (k, sub)" by (cases x)
      from 2 [OF VObject x xs [symmetric], of s]
      show "(\<exists>e. fst ((case x of (k, sub) \<Rightarrow> matchPattern sub (property props k)) s) = Inl e)
            \<or> fst ((case x of (k, sub) \<Rightarrow> matchPattern sub (property props k)) s)
              = fst ((case x of (k, sub) \<Rightarrow> matchPattern sub (property props k)) Discard)"
        using xs by simp
    next
      fix x assume "x \<in> set shape"
      show "snd ((case x of (k, sub) \<Rightarrow> matchPattern sub (property props k)) Discard) = Discard"
        using matchPattern_Discard by (cases x) simp
    qed
    then show ?thesis using VObject by simp
  qed simp_all
next
  case (3 elements v selector)
  show ?case
  proof (cases v)
    case (VArray vs)
    show ?thesis
    proof (cases "length elements = length vs")
      case True
      have "(\<exists>e. fst (Array_every (\<lambda>(sub, e). matchPattern sub e) (zip elements vs) selector) = Inl e)
            \<or> fst (Array_every (\<lambda>(sub, e). matchPattern sub e) (zip elements vs) selector)
              = fst (Array_every (\<lambda>(sub, e). matchPattern sub e) (zip elements vs) Discard)"
      proof (rule Array_every_agree)
        fix x s assume x: "x \<in> set (zip elements vs)"
        obtain sub e where xs: "x = (sub, e)" by (cases x)
        from 3 [OF VArray True x xs [symmetric], of s]
        show "(\<exists>e. fst ((case x of (sub, e) \<Rightarrow> matchPattern sub e) s) = Inl e)
              \<or> fst ((case x of (sub, e) \<Rightarrow> matchPattern sub e) s)
                = fst ((case x of (sub, e) \<Rightarrow> matchPattern sub e) Discard)"
          using xs by simp
      next
        fix x assume "x \<in> set (zip elements vs)"
        show "snd ((case x of (sub, e) \<Rightarrow> matchPattern sub e) Discard) = Discard"
          using matchPattern_Discard by (cases x) simp
      qed
      then show ?thesis using VArray True by simp
    next
      case False
      then show ?thesis using VArray by simp
    qed
  qed simp_all
qed (simp_all add: deliver_agree)

text \<open>
  So when \<^verbatim>\<open>some\<close> or \<^verbatim>\<open>every\<close> over \<^verbatim>\<open>matchPattern\<close> returns, with whatever selector, it
  returns whether some, or every, element matches.
\<close>

lemma Array_some_Discard:
  "\<exists>r. Array_some (\<lambda>p. matchPattern p v) ps Discard = (r, Discard)
       \<and> (\<forall>m. r = Inr m \<longrightarrow> m = (\<exists>p \<in> set ps. matches p v))"
proof (induction ps)
  case Nil
  show ?case by simp
next
  case (Cons p ps)
  obtain r where r: "matchPattern p v Discard = (r, Discard)"
    using matchPattern_Discard [of Discard p v] by (cases "matchPattern p v Discard") auto
  show ?case
  proof (cases r)
    case (Inl e)
    then show ?thesis using r by simp
  next
    case (Inr m)
    then show ?thesis using r Cons by (cases m) (auto simp: matches_def)
  qed
qed

lemma some_matches:
  assumes "fst (Array_some (\<lambda>p. matchPattern p v) ps selector) = Inr m"
  shows "m = (\<exists>p \<in> set ps. matches p v)"
proof -
  have "(\<exists>e. fst (Array_some (\<lambda>p. matchPattern p v) ps selector) = Inl e)
        \<or> fst (Array_some (\<lambda>p. matchPattern p v) ps selector)
          = fst (Array_some (\<lambda>p. matchPattern p v) ps Discard)"
    by (rule Array_some_agree) (use matchPattern_selector matchPattern_Discard in auto)
  then have "fst (Array_some (\<lambda>p. matchPattern p v) ps Discard) = Inr m"
    using assms by auto
  then show ?thesis using Array_some_Discard [of v ps] by auto
qed

lemma Array_every_flag:
  assumes "\<And>x. x \<in> set xs \<Longrightarrow> snd (f x d) = d"
  shows "\<exists>r. Array_every f xs d = (r, d)
             \<and> (\<forall>m. r = Inr m \<longrightarrow> m = (\<forall>x \<in> set xs. fst (f x d) = Inr True))"
  using assms
proof (induction xs)
  case Nil
  show ?case by simp
next
  case (Cons x xs)
  obtain r where r: "f x d = (r, d)" using Cons.prems [of x] by (cases "f x d") auto
  show ?case
  proof (cases r)
    case (Inl e)
    then show ?thesis using r by simp
  next
    case (Inr m)
    then show ?thesis using r Cons by (cases m) auto
  qed
qed

lemma every_matches:
  assumes "fst (Array_every (\<lambda>x. matchPattern p x) vs selector) = Inr m"
  shows "m = (\<forall>x \<in> set vs. matches p x)"
proof -
  have "(\<exists>e. fst (Array_every (\<lambda>x. matchPattern p x) vs selector) = Inl e)
        \<or> fst (Array_every (\<lambda>x. matchPattern p x) vs selector)
          = fst (Array_every (\<lambda>x. matchPattern p x) vs Discard)"
    by (rule Array_every_agree) (use matchPattern_selector matchPattern_Discard in auto)
  then have "fst (Array_every (\<lambda>x. matchPattern p x) vs Discard) = Inr m"
    using assms by auto
  then show ?thesis
    using Array_every_flag [of vs "\<lambda>x. matchPattern p x" Discard] matchPattern_Discard
    by (auto simp: matches_def)
qed

subsection \<open>Ordinary patterns never throw\<close>

text \<open>
  An ordinary pattern never makes \<^verbatim>\<open>matchPattern\<close> throw: whatever the value, with a
  selector whose selections object is clean, \<^verbatim>\<open>matchPattern\<close> returns a boolean and
  leaves the object clean, and the \<^verbatim>\<open>match\<close> of every combinator returns. The proof
  follows the mutual recursion of \<^verbatim>\<open>matchPattern\<close> and the five \<^verbatim>\<open>match\<close> closures.
\<close>

lemma set_foldl_keys:
  "set (foldl (\<lambda>acc p. acc @ f p) a ps) = set a \<union> (\<Union>p \<in> set ps. set (f p))"
  by (induction ps arbitrary: a) auto

lemma set_flatMap: "set (flatMap xs f) = (\<Union>x \<in> set xs. set (f x))"
  by (simp add: flatMap_def)

lemma getSelectionKeys_subset: "set (getSelectionKeys p) \<subseteq> set (select_keys p)"
  by (induction p rule: select_keys.induct) (auto simp: set_flatMap set_foldl_keys)

lemma ordinary_simps:
  "ordinary (ObjectShape shape) = (\<forall>x \<in> set shape. ordinary (snd x))"
  "ordinary (ArrayShapeLiteral elements) = (\<forall>x \<in> set elements. ordinary x)"
  "ordinary (P_optional p) = ordinary p"
  "ordinary (P_array p) = ordinary p"
  "ordinary (P_intersection ps) = (\<forall>x \<in> set ps. ordinary x)"
  "ordinary (P_union ps) = (\<forall>x \<in> set ps. ordinary x)"
  "ordinary (P_not p) = ordinary p"
  by (auto simp: ordinary_def set_flatMap)

lemma clean_empty: "clean (Assign empty_object)" "clean (Collect [])" "clean Discard"
  by (simp_all add: clean_def clean_object_def empty_object_def)

lemma call_selector_clean:
  assumes "k \<notin> set Object_prototype_keys" and "clean selector"
  shows "\<exists>sel. call_selector selector k x = Inr sel \<and> clean sel"
proof (cases selector)
  case (Assign target)
  have k: "k \<noteq> ''__proto__''" using assms(1) by (auto simp: Object_prototype_keys_def)
  have nf: "\<not> inherits_readonly (proto target) k"
    using assms(2) Assign
    by (auto simp: clean_def clean_object_def inherits_readonly_def
        split: prototype.splits val.splits)
  show ?thesis
    using assms Assign k nf
    by (auto simp: assign_def clean_def clean_object_def dom_update)
next
  case (Collect arrays)
  have keys: "(\<lambda>x. fst (case x of (key, xs) \<Rightarrow> (key, VArray xs))) ` S = fst ` S"
    for S :: "(key \<times> val list) set"
    by force
  have c: "fst ` set arrays \<inter> set Object_prototype_keys = {}"
    using assms(2) Collect by (simp add: clean_def clean_object_def keys)
  have "fst ` set (AList.update k y arrays) \<inter> set Object_prototype_keys = {}" for y
    using c assms(1) by (simp add: dom_update)
  then have "clean (Collect (AList.update k y arrays))" for y
    by (simp add: clean_def clean_object_def keys)
  then show ?thesis
    using assms(1) Collect by (auto simp: collect_def split: option.splits)
next
  case Discard
  then show ?thesis using assms by simp
qed

lemma forEach_clean:
  assumes "fst ` set kvs \<inter> set Object_prototype_keys = {}" and "clean selector"
  shows "\<exists>sel. Array_forEach (\<lambda>(key, x) sel. call_selector sel key x) kvs selector = (None, sel)
               \<and> clean sel"
  using assms
proof (induction kvs arbitrary: selector)
  case Nil
  then show ?case by simp
next
  case (Cons a kvs)
  obtain k x where a: "a = (k, x)" by (cases a)
  have "k \<notin> set Object_prototype_keys" using Cons.prems(1) a by auto
  from call_selector_clean [OF this Cons.prems(2), of x]
  obtain sel where sel: "call_selector selector k x = Inr sel" "clean sel" by auto
  have "fst ` set kvs \<inter> set Object_prototype_keys = {}" using Cons.prems(1) by auto
  from Cons.IH [OF this sel(2)] show ?case using a sel(1) by simp
qed

lemma seed_clean:
  assumes "set ks \<inter> set Object_prototype_keys = {}" and "clean selector"
  shows "\<exists>sel. Array_forEach (\<lambda>key sel. call_selector sel key u) ks selector = (None, sel)
               \<and> clean sel"
  using assms
proof (induction ks arbitrary: selector)
  case Nil
  then show ?case by simp
next
  case (Cons k ks)
  have "k \<notin> set Object_prototype_keys" using Cons.prems(1) by auto
  from call_selector_clean [OF this Cons.prems(2), of u]
  obtain sel where sel: "call_selector selector k u = Inr sel" "clean sel" by auto
  have "set ks \<inter> set Object_prototype_keys = {}" using Cons.prems(1) by auto
  from Cons.IH [OF this sel(2)] show ?case using sel(1) by simp
qed

lemma deliver_clean:
  assumes "good result" and "clean selector"
  shows "\<exists>m sel. deliver result selector = (Inr m, sel) \<and> clean sel"
proof -
  obtain r where r: "result = Inr r" using assms(1) by (cases result) (auto simp: good_def)
  show ?thesis
  proof (cases "selections r")
    case None
    then show ?thesis using r assms(2) by (auto simp: deliver_def)
  next
    case (Some target)
    have "fst ` set (own target) \<inter> set Object_prototype_keys = {}"
      using assms(1) r Some by (simp add: good_def)
    from forEach_clean [OF this assms(2)] show ?thesis
      using r Some assms(2) by (auto simp: deliver_def)
  qed
qed

lemma Array_every_clean:
  assumes "\<And>x s. x \<in> set xs \<Longrightarrow> clean s \<Longrightarrow> \<exists>m s'. f x s = (Inr m, s') \<and> clean s'"
    and "clean s"
  shows "\<exists>m s'. Array_every f xs s = (Inr m, s') \<and> clean s'"
  using assms
proof (induction xs arbitrary: s)
  case Nil
  then show ?case by auto
next
  case (Cons x xs)
  from Cons.prems(1) [of x s] Cons.prems(2)
  obtain m t where t: "f x s = (Inr m, t)" "clean t" by auto
  from Cons.IH [of t] Cons.prems(1) t(2)
  obtain m' t' where "Array_every f xs t = (Inr m', t')" "clean t'" by auto
  then show ?case using t by auto
qed

lemma Array_some_clean:
  assumes "\<And>x s. x \<in> set xs \<Longrightarrow> clean s \<Longrightarrow> \<exists>m s'. f x s = (Inr m, s') \<and> clean s'"
    and "clean s"
  shows "\<exists>m s'. Array_some f xs s = (Inr m, s') \<and> clean s'"
  using assms
proof (induction xs arbitrary: s)
  case Nil
  then show ?case by auto
next
  case (Cons x xs)
  from Cons.prems(1) [of x s] Cons.prems(2)
  obtain m t where t: "f x s = (Inr m, t)" "clean t" by auto
  from Cons.IH [of t] Cons.prems(1) t(2)
  obtain m' t' where "Array_some f xs t = (Inr m', t')" "clean t'" by auto
  then show ?case using t by auto
qed

lemma good_written: "clean sel \<Longrightarrow> good (Inr \<lparr>matched = m, selections = Some (written sel)\<rparr>)"
  by (simp add: good_def clean_def clean_object_def)

lemma ordinary_returns:
  shows "ordinary p \<Longrightarrow> clean selector
         \<Longrightarrow> \<exists>m sel. matchPattern p v selector = (Inr m, sel) \<and> clean sel"
    and "ordinary p1 \<Longrightarrow> good (optional_match p1 v1)"
    and "ordinary p2 \<Longrightarrow> good (array_match p2 v2)"
    and "\<forall>x \<in> set ps3. ordinary x \<Longrightarrow> good (intersection_match ps3 v3)"
    and "\<forall>x \<in> set ps4. ordinary x \<Longrightarrow> good (union_match ps4 v4)"
    and "ordinary p5 \<Longrightarrow> good (not_match p5 v5)"
proof (induction p v selector and p1 v1 and p2 v2 and ps3 v3 and ps4 v4 and p5 v5
    rule: matchPattern_optional_match_array_match_intersection_match_union_match_not_match.induct)
  case (1 l v selector)
  then show ?case by auto
next
  case (2 shape v selector)
  show ?case
  proof (cases v)
    case (VObject props)
    have "\<exists>m s'. Array_every (\<lambda>(k, sub). matchPattern sub (property props k)) shape selector
                   = (Inr m, s') \<and> clean s'"
    proof (rule Array_every_clean)
      fix x s assume x: "x \<in> set shape" and s: "clean s"
      obtain k sub where xs: "x = (k, sub)" by (cases x)
      have "ordinary sub" using "2.prems"(1) x xs by (auto simp: ordinary_simps)
      from "2.IH" [OF VObject x xs [symmetric] this s]
      show "\<exists>m s'. (case x of (k, sub) \<Rightarrow> matchPattern sub (property props k)) s = (Inr m, s')
                    \<and> clean s'"
        using xs by simp
    qed (rule "2.prems"(2))
    then show ?thesis using VObject by simp
  qed (use "2.prems" in auto)
next
  case (3 elements v selector)
  show ?case
  proof (cases v)
    case (VArray vs)
    show ?thesis
    proof (cases "length elements = length vs")
      case True
      have "\<exists>m s'. Array_every (\<lambda>(sub, e). matchPattern sub e) (zip elements vs) selector
                     = (Inr m, s') \<and> clean s'"
      proof (rule Array_every_clean)
        fix x s assume x: "x \<in> set (zip elements vs)" and s: "clean s"
        obtain sub e where xs: "x = (sub, e)" by (cases x)
        have "sub \<in> set elements" using x xs by (auto dest: set_zip_leftD)
        then have "ordinary sub" using "3.prems"(1) by (auto simp: ordinary_simps)
        from "3.IH" [OF VArray True x xs [symmetric] this s]
        show "\<exists>m s'. (case x of (sub, e) \<Rightarrow> matchPattern sub e) s = (Inr m, s') \<and> clean s'"
          using xs by simp
      qed (rule "3.prems"(2))
      then show ?thesis using VArray True by simp
    next
      case False
      then show ?thesis using VArray "3.prems" by auto
    qed
  qed (use "3.prems" in auto)
next
  case (4 pattern v selector)
  then show ?case by (simp add: deliver_clean ordinary_simps)
next
  case (5 pattern v selector)
  then show ?case by (simp add: deliver_clean ordinary_simps)
next
  case (6 patterns v selector)
  then show ?case by (simp add: deliver_clean ordinary_simps)
next
  case (7 patterns v selector)
  then show ?case by (simp add: deliver_clean ordinary_simps)
next
  case (8 pattern v selector)
  then show ?case by (simp add: deliver_clean ordinary_simps)
next
  case (9 predicate v selector)
  then show ?case by (simp add: deliver_clean good_def when_match_def)
next
  case (10 key v selector)
  have "good (Inr (select_match key v))"
    using "10.prems"(1) by (simp add: good_def select_match_def ordinary_def)
  then show ?case using "10.prems"(2) by (simp add: deliver_clean)
next
  case (11 pattern v)
  show ?case
  proof (cases "v = VUndefined")
    case True
    have "set (getSelectionKeys pattern) \<inter> set Object_prototype_keys = {}"
      using "11.prems" getSelectionKeys_subset [of pattern] by (auto simp: ordinary_def)
    from seed_clean [OF this clean_empty(1), of VUndefined]
    show ?thesis using True by (auto simp: good_written)
  next
    case False
    from "11.IH" [OF False "11.prems" clean_empty(1)]
    show ?thesis using False by (auto simp: good_written)
  qed
next
  case (12 pattern v)
  show ?case
  proof (cases v)
    case (VArray vs)
    have "\<exists>m s'. Array_every (\<lambda>x. matchPattern pattern x) vs (Collect []) = (Inr m, s') \<and> clean s'"
      by (rule Array_every_clean) (use "12.IH" [OF VArray _ "12.prems"] clean_empty in auto)
    then show ?thesis using VArray by (auto simp: good_written)
  qed (simp_all add: good_def)
next
  case (13 patterns v)
  have "\<exists>m s'. Array_every (\<lambda>p. matchPattern p v) patterns (Assign empty_object) = (Inr m, s')
                \<and> clean s'"
    by (rule Array_every_clean) (use "13.IH" "13.prems" clean_empty in auto)
  then show ?case by (auto simp: good_written)
next
  case (14 patterns v)
  have "set (flatMap patterns getSelectionKeys) \<inter> set Object_prototype_keys = {}"
    using "14.prems" getSelectionKeys_subset by (fastforce simp: ordinary_def set_flatMap)
  from seed_clean [OF this clean_empty(1), of VUndefined]
  obtain seeded where seeded:
    "Array_forEach (\<lambda>key sel. call_selector sel key VUndefined)
       (flatMap patterns getSelectionKeys) (Assign empty_object) = (None, seeded)" "clean seeded"
    by auto
  have "\<exists>m s'. Array_some (\<lambda>p. matchPattern p v) patterns seeded = (Inr m, s') \<and> clean s'"
    by (rule Array_some_clean) (use "14.IH" [OF seeded(1) [symmetric] refl] "14.prems" seeded(2) in auto)
  then show ?case using seeded(1) by (auto simp: good_written)
next
  case (15 pattern v)
  from "15.IH" [OF "15.prems" clean_empty(3)]
  show ?case by (auto simp: good_def)
qed

lemma ordinary_total:
  assumes "ordinary p"
  shows "\<exists>m. fst (matchPattern p v Discard) = Inr m"
    and "\<exists>m. fst (matchPattern p v (Assign empty_object)) = Inr m"
    and "\<exists>m. fst (matchPattern p v (Collect [])) = Inr m"
  using ordinary_returns(1) [OF assms clean_empty(3), of v]
    ordinary_returns(1) [OF assms clean_empty(1), of v]
    ordinary_returns(1) [OF assms clean_empty(2), of v]
  by auto

subsection \<open>Writes stay within the selection keys\<close>

text \<open>
  \<^verbatim>\<open>matchPattern\<close> calls its selector only with selection keys of the pattern
  (\<^verbatim>\<open>getSelectionKeys\<close>): under any other name, the object of the selector holds after the
  call what it held before, also when the call throws, and the selections that the
  \<^verbatim>\<open>match\<close> of a combinator reports have no own property of another name. In
  particular a pattern without the selection key \<^verbatim>\<open>__proto__\<close> leaves the prototype of the
  object alone.
\<close>

lemma map_of_arrays:
  "map_of (map (\<lambda>(key, xs). (key, VArray xs)) arrays) k = map_option VArray (map_of arrays k)"
  by (induction arrays) auto

lemma call_selector_frame:
  assumes "call_selector selector key x = Inr sel" and "k \<noteq> key"
  shows "slot k sel = slot k selector"
proof (cases selector)
  case (Assign target)
  then show ?thesis
    using assms
    by (auto simp: slot_def assign_def update_conv split: if_splits)
next
  case (Collect arrays)
  then show ?thesis
    using assms
    by (auto simp: slot_def collect_def map_of_arrays update_conv split: option.splits if_splits)
next
  case Discard
  then show ?thesis using assms by simp
qed

lemma Array_forEach_preserves:
  "(\<And>x s s'. x \<in> set xs \<Longrightarrow> f x s = Inr s' \<Longrightarrow> g s' = g s)
   \<Longrightarrow> g (snd (Array_forEach f xs s)) = g s"
proof (induction xs arbitrary: s)
  case Nil
  show ?case by simp
next
  case (Cons x xs)
  show ?case
  proof (cases "f x s")
    case (Inl e)
    then show ?thesis by simp
  next
    case (Inr s')
    have "g s' = g s" using Cons.prems [of x s s'] Inr by simp
    moreover have "g (snd (Array_forEach f xs s')) = g s'"
      by (rule Cons.IH) (use Cons.prems in auto)
    ultimately show ?thesis using Inr by simp
  qed
qed

lemma Array_every_preserves:
  "(\<And>x s. x \<in> set xs \<Longrightarrow> g (snd (f x s)) = g s) \<Longrightarrow> g (snd (Array_every f xs s)) = g s"
proof (induction xs arbitrary: s)
  case Nil
  show ?case by simp
next
  case (Cons x xs)
  obtain r t where t: "f x s = (r, t)" by (cases "f x s")
  have 1: "g t = g s" using Cons.prems [of x s] t by simp
  have 2: "g (snd (Array_every f xs t)) = g t" by (rule Cons.IH) (use Cons.prems in auto)
  show ?case using t 1 2 by (cases r) auto
qed

lemma Array_some_preserves:
  "(\<And>x s. x \<in> set xs \<Longrightarrow> g (snd (f x s)) = g s) \<Longrightarrow> g (snd (Array_some f xs s)) = g s"
proof (induction xs arbitrary: s)
  case Nil
  show ?case by simp
next
  case (Cons x xs)
  obtain r t where t: "f x s = (r, t)" by (cases "f x s")
  have 1: "g t = g s" using Cons.prems [of x s] t by simp
  have 2: "g (snd (Array_some f xs t)) = g t" by (rule Cons.IH) (use Cons.prems in auto)
  show ?case using t 1 2 by (cases r) auto
qed

lemma forward_frame:
  "k \<notin> fst ` set kvs
   \<Longrightarrow> slot k (snd (Array_forEach (\<lambda>(key, x) sel. call_selector sel key x) kvs selector))
       = slot k selector"
proof (rule Array_forEach_preserves)
  fix x s s'
  assume k: "k \<notin> fst ` set kvs" and x: "x \<in> set kvs"
    and c: "(case x of (key, x) \<Rightarrow> \<lambda>sel. call_selector sel key x) s = Inr s'"
  obtain key y where xy: "x = (key, y)" by (cases x)
  have "k \<noteq> key" using k x xy by force
  then show "slot k s' = slot k s" using c xy call_selector_frame [of s key y s' k] by simp
qed

lemma seed_frame:
  "k \<notin> set ks
   \<Longrightarrow> slot k (snd (Array_forEach (\<lambda>key sel. call_selector sel key u) ks selector))
       = slot k selector"
proof (rule Array_forEach_preserves)
  fix x s s'
  assume k: "k \<notin> set ks" and x: "x \<in> set ks" and c: "call_selector s x u = Inr s'"
  have "k \<noteq> x" using k x by auto
  then show "slot k s' = slot k s" using c call_selector_frame [of s x u s' k] by simp
qed

lemma deliver_frame:
  assumes "\<not> reports result k"
  shows "slot k (snd (deliver result selector)) = slot k selector"
proof (cases result)
  case (Inl e)
  then show ?thesis by (simp add: deliver_def)
next
  case (Inr r)
  show ?thesis
  proof (cases "selections r")
    case None
    then show ?thesis using Inr by (simp add: deliver_def)
  next
    case (Some target)
    have "k \<notin> fst ` set (own target)"
      using assms Inr Some by (simp add: reports_def map_of_eq_None_iff)
    from forward_frame [OF this, where selector = selector] show ?thesis
      using Inr Some
      by (cases "Array_forEach (\<lambda>(key, x) sel. call_selector sel key x) (own target) selector")
         (auto simp: deliver_def split: option.splits)
  qed
qed

lemma slot_empty: "slot k (Assign empty_object) = (None, if k = ''__proto__'' then Some ObjectPrototype else None)"
  "slot k (Collect []) = (None, if k = ''__proto__'' then Some ObjectPrototype else None)"
  by (simp_all add: slot_def empty_object_def)

lemma not_reports_written:
  "fst (slot k sel) = None \<Longrightarrow> \<not> reports (Inr \<lparr>matched = m, selections = Some (written sel)\<rparr>) k"
  by (simp add: reports_def slot_def)

lemma writes_within_keys:
  shows "k \<notin> set (getSelectionKeys p) \<Longrightarrow> slot k (snd (matchPattern p v selector)) = slot k selector"
    and "k \<notin> set (getSelectionKeys p1) \<Longrightarrow> \<not> reports (optional_match p1 v1) k"
    and "k \<notin> set (getSelectionKeys p2) \<Longrightarrow> \<not> reports (array_match p2 v2) k"
    and "k \<notin> set (getSelectionKeys (P_intersection ps3)) \<Longrightarrow> \<not> reports (intersection_match ps3 v3) k"
    and "k \<notin> set (getSelectionKeys (P_union ps4)) \<Longrightarrow> \<not> reports (union_match ps4 v4) k"
    and "\<not> reports (not_match p5 v5) k"
proof (induction p v selector and p1 v1 and p2 v2 and ps3 v3 and ps4 v4 and p5 v5
    rule: matchPattern_optional_match_array_match_intersection_match_union_match_not_match.induct)
  case (1 l v selector)
  show ?case by simp
next
  case (2 shape v selector)
  show ?case
  proof (cases v)
    case (VObject props)
    have "slot k (snd (Array_every (\<lambda>(key, sub). matchPattern sub (property props key)) shape selector))
          = slot k selector"
    proof (rule Array_every_preserves)
      fix x s assume x: "x \<in> set shape"
      obtain key sub where xs: "x = (key, sub)" by (cases x)
      have "k \<notin> set (getSelectionKeys sub)"
        using "2.prems" x xs by (force simp: set_flatMap)
      from "2.IH" [OF VObject x xs [symmetric] this]
      show "slot k (snd ((case x of (key, sub) \<Rightarrow> matchPattern sub (property props key)) s))
            = slot k s"
        using xs by simp
    qed
    then show ?thesis using VObject by simp
  qed simp_all
next
  case (3 elements v selector)
  show ?case
  proof (cases v)
    case (VArray vs)
    show ?thesis
    proof (cases "length elements = length vs")
      case True
      have "slot k (snd (Array_every (\<lambda>(sub, e). matchPattern sub e) (zip elements vs) selector))
            = slot k selector"
      proof (rule Array_every_preserves)
        fix x s assume x: "x \<in> set (zip elements vs)"
        obtain sub e where xs: "x = (sub, e)" by (cases x)
        have "sub \<in> set elements" using x xs by (auto dest: set_zip_leftD)
        then have "k \<notin> set (getSelectionKeys sub)"
          using "3.prems" by (auto simp: set_flatMap)
        from "3.IH" [OF VArray True x xs [symmetric] this]
        show "slot k (snd ((case x of (sub, e) \<Rightarrow> matchPattern sub e) s)) = slot k s"
          using xs by simp
      qed
      then show ?thesis using VArray True by simp
    next
      case False
      then show ?thesis using VArray by simp
    qed
  qed simp_all
next
  case (4 pattern v selector)
  then show ?case by (simp add: deliver_frame)
next
  case (5 pattern v selector)
  then show ?case by (simp add: deliver_frame)
next
  case (6 patterns v selector)
  then show ?case by (simp add: deliver_frame)
next
  case (7 patterns v selector)
  then show ?case by (simp add: deliver_frame)
next
  case (8 pattern v selector)
  then show ?case by (simp add: deliver_frame)
next
  case (9 predicate v selector)
  show ?case by (simp add: deliver_frame reports_def when_match_def)
next
  case (10 key v selector)
  then show ?case
    by (simp add: deliver_frame reports_def select_match_def)
next
  case (11 pattern v)
  show ?case
  proof (cases "v = VUndefined")
    case True
    obtain e sel where s: "Array_forEach (\<lambda>key sel. call_selector sel key VUndefined)
        (getSelectionKeys pattern) (Assign empty_object) = (e, sel)"
      by (cases "Array_forEach (\<lambda>key sel. call_selector sel key VUndefined)
        (getSelectionKeys pattern) (Assign empty_object)")
    have "slot k sel = slot k (Assign empty_object)"
      using seed_frame [OF "11.prems", where u = VUndefined and selector = "Assign empty_object"] s by simp
    then have "fst (slot k sel) = None" by (simp add: slot_empty)
    then show ?thesis
      using True s by (cases e) (simp_all add: not_reports_written, simp add: reports_def)
  next
    case False
    obtain r sel where s: "matchPattern pattern v (Assign empty_object) = (r, sel)"
      by (cases "matchPattern pattern v (Assign empty_object)")
    have "slot k sel = slot k (Assign empty_object)"
      using "11.IH" [OF False "11.prems"] s by simp
    then have "fst (slot k sel) = None" by (simp add: slot_empty)
    then show ?thesis
      using False s by (cases r) (simp_all add: not_reports_written, simp add: reports_def)
  qed
next
  case (12 pattern v)
  show ?case
  proof (cases v)
    case (VArray vs)
    obtain r sel where s: "Array_every (\<lambda>x. matchPattern pattern x) vs (Collect []) = (r, sel)"
      by (cases "Array_every (\<lambda>x. matchPattern pattern x) vs (Collect [])")
    have "slot k (snd (Array_every (\<lambda>x. matchPattern pattern x) vs (Collect [])))
          = slot k (Collect [])"
      by (rule Array_every_preserves) (rule "12.IH" [OF VArray _ "12.prems"])
    then have "fst (slot k sel) = None" using s by (simp add: slot_empty)
    then show ?thesis
      using VArray s by (cases r) (simp_all add: not_reports_written, simp add: reports_def)
  qed (simp_all add: reports_def)
next
  case (13 patterns v)
  obtain r sel where s: "Array_every (\<lambda>p. matchPattern p v) patterns (Assign empty_object) = (r, sel)"
    by (cases "Array_every (\<lambda>p. matchPattern p v) patterns (Assign empty_object)")
  have "slot k (snd (Array_every (\<lambda>p. matchPattern p v) patterns (Assign empty_object)))
        = slot k (Assign empty_object)"
  proof (rule Array_every_preserves)
    fix x t assume x: "x \<in> set patterns"
    then have "k \<notin> set (getSelectionKeys x)" using "13.prems" by (auto simp: set_foldl_keys)
    from "13.IH" [OF x this] show "slot k (snd (matchPattern x v t)) = slot k t" .
  qed
  then have "fst (slot k sel) = None" using s by (simp add: slot_empty)
  then show ?case
    using s by (cases r) (simp_all add: not_reports_written, simp add: reports_def)
next
  case (14 patterns v)
  obtain e seeded where sd: "Array_forEach (\<lambda>key sel. call_selector sel key VUndefined)
      (flatMap patterns getSelectionKeys) (Assign empty_object) = (e, seeded)"
    by (cases "Array_forEach (\<lambda>key sel. call_selector sel key VUndefined)
      (flatMap patterns getSelectionKeys) (Assign empty_object)")
  have k: "k \<notin> set (flatMap patterns getSelectionKeys)"
    using "14.prems" by (simp add: set_foldl_keys set_flatMap)
  have 0: "slot k seeded = slot k (Assign empty_object)"
    using seed_frame [OF k, where u = VUndefined and selector = "Assign empty_object"] sd by simp
  show ?case
  proof (cases e)
    case (Some err)
    then show ?thesis using sd by (simp add: reports_def)
  next
    case None
    obtain r sel where s: "Array_some (\<lambda>p. matchPattern p v) patterns seeded = (r, sel)"
      by (cases "Array_some (\<lambda>p. matchPattern p v) patterns seeded")
    have "slot k (snd (Array_some (\<lambda>p. matchPattern p v) patterns seeded)) = slot k seeded"
    proof (rule Array_some_preserves)
      fix x t assume x: "x \<in> set patterns"
      then have "k \<notin> set (getSelectionKeys x)" using "14.prems" by (auto simp: set_foldl_keys)
      from "14.IH" [OF sd [symmetric] None x this]
      show "slot k (snd (matchPattern x v t)) = slot k t" .
    qed
    then have "fst (slot k sel) = None" using s 0 by (simp add: slot_empty)
    then show ?thesis
      using sd None s by (cases r) (simp_all add: not_reports_written, simp add: reports_def)
  qed
next
  case (15 pattern v)
  show ?case
    by (cases "matchPattern pattern v Discard") (auto simp: reports_def split: sum.splits)
qed

subsection \<open>Totality\<close>

text \<open>
  A value of the wrong shape gives \<^verbatim>\<open>false\<close>, without a call of the selector and
  without an exception: a value that is no keyed record against an object shape, a value
  that is no array or an array of another length against a tuple, a value that is no array
  against \<^verbatim>\<open>array(p)\<close>, a different value against a literal.
\<close>

lemma shape_mismatch_is_false:
  "((\<forall>props. v \<noteq> VObject props)
        \<longrightarrow> matchPattern (ObjectShape shape) v selector = (Inr False, selector))
   \<and> ((\<forall>vs. v \<noteq> VArray vs)
        \<longrightarrow> matchPattern (ArrayShapeLiteral elements) v selector = (Inr False, selector))
   \<and> (length elements \<noteq> length vs
        \<longrightarrow> matchPattern (ArrayShapeLiteral elements) (VArray vs) selector = (Inr False, selector))
   \<and> ((\<forall>vs. v \<noteq> VArray vs) \<longrightarrow> matchPattern (P_array p) v selector = (Inr False, selector))
   \<and> (v \<noteq> l \<longrightarrow> matchPattern (Literal l) v selector = (Inr False, selector))"
  by (cases v) (simp_all add: deliver_def)

text \<open>
  C8, at the pattern \<^verbatim>\<open>array(select('constructor'))\<close> and the value \<^verbatim>\<open>[1]\<close>:
  \<^verbatim>\<open>matchPattern\<close> throws a \<^verbatim>\<open>TypeError\<close>, whatever selector it is given. The selector
  of \<^verbatim>\<open>array\<close> reads \<^verbatim>\<open>selections['constructor']\<close> on its fresh object \<^verbatim>\<open>{}\<close>, finds
  the inherited function, which is truthy, and calls its missing method \<^verbatim>\<open>concat\<close>. The
  same happens for \<^verbatim>\<open>toString\<close>, \<^verbatim>\<open>__proto__\<close> and every other name of a property of
  \<^verbatim>\<open>Object.prototype\<close>, also under \<^verbatim>\<open>not\<close>, and resolution through \<^verbatim>\<open>with\<close> and
  \<^verbatim>\<open>run\<close> throws the same error. With the key \<^verbatim>\<open>x\<close> the same pattern matches.
\<close>

theorem array_selector_throws:
  "collect ''constructor'' (VNumber 1) [] = Inl TypeError
   \<and> array_match (P_select (Some ''constructor'')) (VArray [VNumber 1]) = Inl TypeError
   \<and> matchPattern (P_array (P_select (Some ''constructor''))) (VArray [VNumber 1]) selector
       = (Inl TypeError, selector)
   \<and> matchPattern (P_array (P_select (Some ''toString''))) (VArray [VNumber 1]) selector
       = (Inl TypeError, selector)
   \<and> matchPattern (P_array (P_select (Some ''__proto__''))) (VArray [VNumber 1]) selector
       = (Inl TypeError, selector)
   \<and> matchPattern (P_not (P_array (P_select (Some ''constructor'')))) (VArray [VNumber 1]) selector
       = (Inl TypeError, selector)
   \<and> matchPattern (P_array (P_select (Some ''x''))) (VArray [VNumber 1]) Discard
       = (Inr True, Discard)
   \<and> fst (run pf (fst (builder_with [PatternArg (P_array (P_select (Some ''constructor'')))] h
                          (match (VArray [VNumber 1])) w))
                  (snd (builder_with [PatternArg (P_array (P_select (Some ''constructor'')))] h
                          (match (VArray [VNumber 1])) w)))
       = Inl TypeError"
  by (simp add: deliver_def select_match_def collect_def Object_prototype_keys_def
      builder_with_def with_arguments_def match_def builder_def run_def doesMatch_def)

subsection \<open>The array combinator\<close>

text \<open>
  When \<^verbatim>\<open>array(p)\<close> returns, it reports a match iff the value is an array and every
  element matches \<open>p\<close>. On a non-empty array, \<^verbatim>\<open>array(select(key))\<close> binds the key to the
  elements in order, unless the key names a property of \<^verbatim>\<open>Object.prototype\<close>;
  \<^verbatim>\<open>array(select())\<close> against \<^verbatim>\<open>[1,2,3]\<close> binds the anonymous key to \<^verbatim>\<open>[1,2,3]\<close>.
\<close>

lemma matched_array_match:
  assumes "array_match p v = Inr r"
  shows "matched r = (case v of VArray vs \<Rightarrow> \<forall>x \<in> set vs. matches p x | _ \<Rightarrow> False)"
proof (cases v)
  case (VArray vs)
  obtain o' sel where o': "Array_every (\<lambda>x. matchPattern p x) vs (Collect []) = (o', sel)"
    by (cases "Array_every (\<lambda>x. matchPattern p x) vs (Collect [])")
  then obtain m where m: "o' = Inr m" "matched r = m"
    using assms VArray by (cases o') auto
  then have "m = (\<forall>x \<in> set vs. matches p x)"
    using every_matches [of p vs "Collect []" m] o' by simp
  then show ?thesis using VArray m by simp
qed (use assms in auto)

lemma collect_elements:
  "Array_every (\<lambda>x. matchPattern (P_select key) x) vs (Collect [(k, xs)])
   = (Inr True, Collect [(k, xs @ vs)])"
  if "k = (case key of Some k \<Rightarrow> k | None \<Rightarrow> anonymousSelectKey)"
  using that
  by (induction vs arbitrary: xs) (simp_all add: deliver_def select_match_def collect_def)

lemma array_match_select:
  assumes "k = (case key of Some k \<Rightarrow> k | None \<Rightarrow> anonymousSelectKey)"
    and "k \<notin> set Object_prototype_keys"
  shows "array_match (P_select key) (VArray (x # xs))
         = Inr \<lparr>matched = True,
                selections = Some \<lparr>own = [(k, VArray (x # xs))], proto = ObjectPrototype\<rparr>\<rparr>"
  using collect_elements [of k key xs "[x]"] assms
  by (simp add: deliver_def select_match_def collect_def)

lemma array_match_select_anonymous:
  "array_match (P_select None) (VArray [VNumber 1, VNumber 2, VNumber 3])
   = Inr \<lparr>matched = True,
          selections = Some \<lparr>own = [(anonymousSelectKey, VArray [VNumber 1, VNumber 2, VNumber 3])],
                              proto = ObjectPrototype\<rparr>\<rparr>"
  by (rule array_match_select) (simp_all add: anonymousSelectKey_def Object_prototype_keys_def)

text \<open>
  C6, at the empty array. \<^verbatim>\<open>array(select('x'))\<close> has the selection key \<^verbatim>\<open>x\<close>. Matched
  against \<^verbatim>\<open>[]\<close> it reports a match whose selections object is empty: the key \<^verbatim>\<open>x\<close> is
  absent, not bound to the empty sequence, and \<^verbatim>\<open>matchPattern\<close> forwards nothing to its
  selector; a handler given to \<^verbatim>\<open>with\<close> for this pattern is called on the whole value
  \<^verbatim>\<open>[]\<close>, not on \<^verbatim>\<open>{x: []}\<close>. (\<^verbatim>\<open>optional\<close> and \<^verbatim>\<open>union\<close> do write every static selection
  key of a subpattern that did not run; \<^verbatim>\<open>array\<close> does not.)
\<close>

theorem array_empty_selects_nothing:
  "array_match (P_select (Some ''x'')) (VArray [])
     = Inr \<lparr>matched = True, selections = Some empty_object\<rparr>
   \<and> getSelectionKeys (P_array (P_select (Some ''x''))) = [''x'']
   \<and> matchPattern (P_array (P_select (Some ''x''))) (VArray []) (Assign empty_object)
       = (Inr True, Assign empty_object)
   \<and> fst (run pf (fst (builder_with [PatternArg (P_array (P_select (Some ''x'')))] h
                          (match (VArray [])) w))
                  (snd (builder_with [PatternArg (P_array (P_select (Some ''x'')))] h
                          (match (VArray [])) w)))
       = Inr (call h [Value (VArray []), Value (VArray [])])"
  by (simp add: deliver_def builder_with_def with_arguments_def match_def builder_def run_def
      doesMatch_def with_select_def empty_object_def)

text \<open>
  For the same reason an empty inner array contributes no entry to the sequence of a nested
  \<^verbatim>\<open>array(array(select('x')))\<close>: against \<^verbatim>\<open>[[], [1]]\<close> the key \<^verbatim>\<open>x\<close> is bound to \<^verbatim>\<open>[[1]]\<close>,
  one entry for two elements.
\<close>

lemma array_nested_empty_dropped:
  "array_match (P_array (P_select (Some ''x''))) (VArray [VArray [], VArray [VNumber 1]])
   = Inr \<lparr>matched = True,
          selections = Some \<lparr>own = [(''x'', VArray [VArray [VNumber 1]])],
                              proto = ObjectPrototype\<rparr>\<rparr>"
  by (simp add: deliver_def select_match_def collect_def Object_prototype_keys_def empty_object_def)

subsection \<open>The union combinator\<close>

text \<open>
  When \<^verbatim>\<open>union(...ps)\<close> returns, it reports a match iff at least one listed pattern
  matches. The example of the specification holds: the union of \<^verbatim>\<open>select('x')\<close>-and-\<^verbatim>\<open>"A"\<close>
  with \<^verbatim>\<open>"B"\<close>, matched against \<^verbatim>\<open>"B"\<close>, yields \<^verbatim>\<open>{x: undefined}\<close>.
\<close>

lemma matched_union_match:
  assumes "union_match ps v = Inr r"
  shows "matched r = (\<exists>p \<in> set ps. matches p v)"
proof -
  obtain e seeded where s: "Array_forEach (\<lambda>key sel. call_selector sel key VUndefined)
             (flatMap ps getSelectionKeys) (Assign empty_object) = (e, seeded)"
    by (cases "Array_forEach (\<lambda>key sel. call_selector sel key VUndefined)
             (flatMap ps getSelectionKeys) (Assign empty_object)")
  then have e: "e = None" using assms by (cases e) auto
  obtain o' sel where o': "Array_some (\<lambda>p. matchPattern p v) ps seeded = (o', sel)"
    by (cases "Array_some (\<lambda>p. matchPattern p v) ps seeded")
  then obtain m where m: "o' = Inr m" "matched r = m"
    using assms s e by (cases o') auto
  then have "m = (\<exists>p \<in> set ps. matches p v)"
    using some_matches [of v ps seeded m] o' by simp
  then show ?thesis using m by simp
qed

lemma union_default_fill:
  "union_match [P_intersection [P_select (Some ''x''), Literal (VString ''A'')],
                Literal (VString ''B'')] (VString ''B'')
   = Inr \<lparr>matched = True,
          selections = Some \<lparr>own = [(''x'', VUndefined)], proto = ObjectPrototype\<rparr>\<rparr>"
  by (simp add: flatMap_def deliver_def select_match_def assign_def empty_object_def
      reaches_proto_setter_def inherits_readonly_def)

text \<open>
  When \<^verbatim>\<open>union\<close> returns, its selections have own properties under selection keys of
  the listed patterns only, and a selection key (other than \<^verbatim>\<open>__proto__\<close>) that only
  patterns listed after a matching pattern have is bound to \<^verbatim>\<open>undefined\<close>: \<^verbatim>\<open>some\<close> stops
  at the first pattern that matches, and no pattern that ran writes under that key.
\<close>

lemma union_selects_within:
  assumes "union_match ps v = Inr r"
  shows "\<exists>target. selections r = Some target
           \<and> fst ` set (own target) \<subseteq> set (flatMap ps getSelectionKeys)"
proof -
  obtain target where t: "selections r = Some target"
    using assms by (auto split: prod.splits option.splits sum.splits)
  have "k \<notin> fst ` set (own target)" if "k \<notin> set (flatMap ps getSelectionKeys)" for k
  proof -
    have "k \<notin> set (getSelectionKeys (P_union ps))"
      using that by (simp add: set_foldl_keys set_flatMap)
    from writes_within_keys(5) [OF this, of v] show ?thesis
      using assms t by (simp add: reports_def map_of_eq_None_iff)
  qed
  then show ?thesis using t by auto
qed

lemma seed_values:
  assumes "Array_forEach (\<lambda>key sel. call_selector sel key VUndefined) ks (Assign target)
           = (None, seeded)"
    and "k \<noteq> ''__proto__''"
  shows "map_of (own (written seeded)) k
         = (if k \<in> set ks then Some VUndefined else map_of (own target) k)"
  using assms(1)
proof (induction ks arbitrary: target)
  case Nil
  then show ?case by auto
next
  case (Cons key ks)
  show ?case
  proof (cases "assign key VUndefined target")
    case (Inl e)
    then show ?thesis using Cons.prems by simp
  next
    case (Inr t)
    have 1: "map_of (own t) k = (if k = key then Some VUndefined else map_of (own target) k)"
      using Inr assms(2)
      by (auto simp: assign_def update_conv is_object_or_null_def split: if_splits)
    have "Array_forEach (\<lambda>key sel. call_selector sel key VUndefined) ks (Assign t)
          = (None, seeded)"
      using Cons.prems Inr by simp
    from Cons.IH [OF this] show ?thesis using 1 by auto
  qed
qed

lemma Array_some_prefix:
  "fst (Array_some f (xs @ [x]) s) \<noteq> Inr False
   \<Longrightarrow> Array_some f (xs @ x # ys) s = Array_some f (xs @ [x]) s"
proof (induction xs arbitrary: s)
  case Nil
  obtain r t where t: "f x s = (r, t)" by (cases "f x s")
  show ?case
  proof (cases r)
    case (Inl e)
    then show ?thesis using t by simp
  next
    case (Inr b)
    then have b using Nil t by (cases b) auto
    then show ?thesis using t Inr by simp
  qed
next
  case (Cons a xs)
  obtain r t where t: "f a s = (r, t)" by (cases "f a s")
  show ?case
  proof (cases r)
    case (Inl e)
    then show ?thesis using t by simp
  next
    case (Inr b)
    show ?thesis
    proof (cases b)
      case True
      then show ?thesis using t Inr by simp
    next
      case False
      then have "fst (Array_some f (xs @ [x]) t) \<noteq> Inr False"
        using Cons.prems t Inr by simp
      from Cons.IH [OF this] show ?thesis using t Inr False by simp
    qed
  qed
qed

lemma union_untested_undefined:
  assumes "union_match (qs @ p # rs) v = Inr r"
    and "matches p v"
    and "k \<in> set (flatMap (qs @ p # rs) getSelectionKeys)"
    and "k \<notin> set (flatMap (qs @ [p]) getSelectionKeys)"
    and "k \<noteq> ''__proto__''"
  shows "\<exists>target. selections r = Some target \<and> map_of (own target) k = Some VUndefined"
proof -
  let ?ps = "qs @ p # rs"
  obtain e seeded where s: "Array_forEach (\<lambda>key sel. call_selector sel key VUndefined)
             (flatMap ?ps getSelectionKeys) (Assign empty_object) = (e, seeded)"
    by (cases "Array_forEach (\<lambda>key sel. call_selector sel key VUndefined)
             (flatMap ?ps getSelectionKeys) (Assign empty_object)")
  then have e: "e = None" using assms(1) by (cases e) auto
  have seeded: "map_of (own (written seeded)) k = Some VUndefined"
    using seed_values [OF s [unfolded e] assms(5)] assms(3) by simp
  obtain o' sel where o': "Array_some (\<lambda>p. matchPattern p v) ?ps seeded = (o', sel)"
    by (cases "Array_some (\<lambda>p. matchPattern p v) ?ps seeded")
  then have r: "selections r = Some (written sel)"
    using assms(1) s e by (cases o') auto
  have "fst (Array_some (\<lambda>p. matchPattern p v) (qs @ [p]) seeded) \<noteq> Inr False"
  proof
    assume "fst (Array_some (\<lambda>p. matchPattern p v) (qs @ [p]) seeded) = Inr False"
    from some_matches [OF this] show False using assms(2) by simp
  qed
  from Array_some_prefix [OF this, of rs]
  have "sel = snd (Array_some (\<lambda>p. matchPattern p v) (qs @ [p]) seeded)"
    using o' by (metis snd_conv)
  moreover have "slot k (snd (Array_some (\<lambda>p. matchPattern p v) (qs @ [p]) seeded))
                 = slot k seeded"
  proof (rule Array_some_preserves)
    fix x t assume "x \<in> set (qs @ [p])"
    then have "k \<notin> set (getSelectionKeys x)" using assms(4) by (auto simp: set_flatMap)
    then show "slot k (snd (matchPattern x v t)) = slot k t" by (rule writes_within_keys(1))
  qed
  ultimately have "map_of (own (written sel)) k = map_of (own (written seeded)) k"
    by (simp add: slot_def)
  then show ?thesis using r seeded by simp
qed

text \<open>
  C5, at \<^verbatim>\<open>union({a: select('x'), b: 'foo'}, {b: 'bar'})\<close> against \<^verbatim>\<open>{a: 1, b: 'bar'}\<close>.
  The first branch selects \<^verbatim>\<open>x\<close> from the field \<^verbatim>\<open>a\<close> and then fails on the field \<^verbatim>\<open>b\<close>;
  the second branch matches and has no selection key. The key \<^verbatim>\<open>x\<close> is captured only on
  the branch not taken, and the selections hold \<^verbatim>\<open>{x: 1}\<close>, not \<^verbatim>\<open>{x: undefined}\<close>: the
  failed branch wrote through the selector of the union before it failed, and nothing
  takes the write back. When the same failed branch is wrapped in \<^verbatim>\<open>intersection\<close>,
  whose selections are forwarded only on a match, the result is \<^verbatim>\<open>{x: undefined}\<close>.
\<close>

theorem union_failed_branch_leaks:
  "let v = VObject [(''a'', VNumber 1), (''b'', VString ''bar'')];
       q = ObjectShape [(''a'', P_select (Some ''x'')), (''b'', Literal (VString ''foo''))];
       p = ObjectShape [(''b'', Literal (VString ''bar''))]
   in \<not> matches q v \<and> matches p v
      \<and> getSelectionKeys q = [''x''] \<and> getSelectionKeys p = []
      \<and> union_match [q, p] v
          = Inr \<lparr>matched = True,
                 selections = Some \<lparr>own = [(''x'', VNumber 1)], proto = ObjectPrototype\<rparr>\<rparr>
      \<and> union_match [P_intersection [q], p] v
          = Inr \<lparr>matched = True,
                 selections = Some \<lparr>own = [(''x'', VUndefined)], proto = ObjectPrototype\<rparr>\<rparr>"
  by (simp add: Let_def matches_def flatMap_def deliver_def select_match_def property_def
      assign_def empty_object_def reaches_proto_setter_def inherits_readonly_def)

section \<open>Properties of the expression builder\<close>

subsection \<open>Resolution\<close>

text \<open>
  The scan passes over entries whose test returns a falsy value, calling each test once, and
  stops at the first entry whose test returns a truthy value.
\<close>

lemma rejectsD: "rejects e v st \<Longrightarrow> \<exists>r u. test e v st = (Inr r, u) \<and> \<not> truthy r"
  by (cases "test e v st") (auto simp: rejects_def split: sum.splits)

lemma succeedsD: "succeeds e v st \<Longrightarrow> \<exists>r u. test e v st = (Inr r, u) \<and> truthy r"
  by (cases "test e v st") (auto simp: succeeds_def split: sum.splits)

lemma find_entry_skip:
  assumes "\<And>e st. e \<in> set pre \<Longrightarrow> rejects e v st"
  shows "\<exists>w1. find_entry (pre @ rest) i v w = find_entry rest (i + length pre) v w1
              \<and> trace w1 = trace w @ map TestCalled [i..<i + length pre]
              \<and> fresh w1 = fresh w"
  using assms
proof (induction pre arbitrary: i w)
  case Nil
  show ?case by (rule exI [of _ w]) simp
next
  case (Cons e pre)
  obtain r st where t: "test e v (store w) = (Inr r, st)" and nr: "\<not> truthy r"
    using rejectsD [OF Cons.prems [of e "store w"]] by auto
  let ?w = "w\<lparr>store := st, trace := trace w @ [TestCalled i]\<rparr>"
  from Cons.IH [of "Suc i" ?w] Cons.prems
  obtain w1 where w1: "find_entry (pre @ rest) (Suc i) v ?w = find_entry rest (Suc i + length pre) v w1"
    "trace w1 = trace ?w @ map TestCalled [Suc i..<Suc i + length pre]" "fresh w1 = fresh ?w"
    by auto
  have "[i..<i + length (e # pre)] = i # [Suc i..<Suc i + length pre]"
    by (subst upt_rec) simp
  then show ?case using t nr w1 by auto
qed

lemma find_entry_hit:
  assumes "succeeds c v (store w)"
  shows "find_entry (c # post) i v w
         = (Inr (Some (i, c)),
            w\<lparr>store := snd (test c v (store w)), trace := trace w @ [TestCalled i]\<rparr>)"
  using succeedsD [OF assms] by auto

lemma find_entry_first:
  assumes "\<And>e st. e \<in> set pre \<Longrightarrow> rejects e v st"
    and "\<And>st. succeeds c v st"
  shows "\<exists>w1. find_entry (pre @ c # post) 0 v w = (Inr (Some (length pre, c)), w1)
              \<and> trace w1 = trace w @ map TestCalled [0..<Suc (length pre)]
              \<and> fresh w1 = fresh w"
proof -
  from find_entry_skip [where pre = pre and rest = "c # post" and i = 0 and w = w and v = v, OF assms(1)]
  obtain w1 where w1: "find_entry (pre @ c # post) 0 v w = find_entry (c # post) (length pre) v w1"
    "trace w1 = trace w @ map TestCalled [0..<length pre]" "fresh w1 = fresh w"
    by auto
  show ?thesis
    using w1 find_entry_hit [where post = post and i = "length pre", OF assms(2) [of "store w1"]]
    by simp
qed

lemma find_entry_none:
  assumes "\<And>e st. e \<in> set cs \<Longrightarrow> rejects e v st"
  shows "\<exists>w1. find_entry cs 0 v w = (Inr None, w1)
              \<and> trace w1 = trace w @ map TestCalled [0..<length cs]
              \<and> fresh w1 = fresh w"
  using find_entry_skip [where pre = cs and rest = "[]" and i = 0 and w = w and v = v, OF assms]
  by auto

lemma run_first:
  assumes "cases b = pre @ c # post"
    and "\<And>e st. e \<in> set pre \<Longrightarrow> rejects e (bound_value b) st"
    and "\<And>st. succeeds c (bound_value b) st"
  shows "\<exists>w'. run pf b w
              = (Inr (call (handler c)
                        [select c (bound_value b) (store w'), Value (bound_value b)]), w')
          \<and> trace w' = trace w @ map TestCalled [0..<Suc (length pre)] @ [HandlerCalled (length pre)]"
proof -
  from find_entry_first [where post = post and w = w, OF assms(2,3)]
  obtain w1 where w1: "find_entry (pre @ c # post) 0 (bound_value b) w = (Inr (Some (length pre, c)), w1)"
    "trace w1 = trace w @ map TestCalled [0..<Suc (length pre)]"
    by blast
  show ?thesis
    unfolding run_def assms(1) w1(1)
    by (rule exI [of _ "w1\<lparr>trace := trace w1 @ [HandlerCalled (length pre)]\<rparr>"]) (simp add: w1(2))
qed



subsection \<open>Exhaustion\<close>

text \<open>
  \<^verbatim>\<open>otherwise\<close> never runs out of cases: it returns what a handler returns, unless a test
  throws, and then it throws what the test throws. With no matching case it is its own
  handler, called on \<^verbatim>\<open>(value, value)\<close>. \<^verbatim>\<open>run\<close> returns a handler's result as soon as
  one test succeeds. When every test fails it throws, and what it throws is decided by the
  two conversions to text.
\<close>

lemma find_entry_last_resort:
  assumes "\<And>st. succeeds d v st"
  shows "(\<exists>i c w1. find_entry (cs @ [d]) n v w = (Inr (Some (i, c)), w1))
         \<or> (\<exists>c \<in> set cs. \<exists>st e. fst (test c v st) = Inl e
                                  \<and> fst (find_entry (cs @ [d]) n v w) = Inl e)"
proof (induction cs arbitrary: n w)
  case Nil
  show ?case using succeedsD [OF assms, of "store w"] by auto
next
  case (Cons c cs)
  obtain r st where t: "test c v (store w) = (r, st)" by (cases "test c v (store w)")
  show ?case
  proof (cases r)
    case (Inl e)
    then have "fst (test c v (store w)) = Inl e"
      and "fst (find_entry ((c # cs) @ [d]) n v w) = Inl e"
      using t by simp_all
    then have "\<exists>c' \<in> set (c # cs). \<exists>st e. fst (test c' v st) = Inl e
                 \<and> fst (find_entry ((c # cs) @ [d]) n v w) = Inl e"
      by (intro bexI [of _ c] exI [of _ "store w"] exI [of _ e]) simp_all
    then show ?thesis by blast
  next
    case (Inr x)
    show ?thesis
    proof (cases "truthy x")
      case True
      then show ?thesis using t Inr by simp
    next
      case False
      from Cons [of "Suc n" "w\<lparr>store := st, trace := trace w @ [TestCalled n]\<rparr>"]
      show ?thesis using t Inr False by auto
    qed
  qed
qed

lemma otherwise_never_exhausted:
  "(\<exists>r. fst (otherwise pf h b w) = Inr r)
   \<or> (\<exists>c \<in> set (cases b). \<exists>st e. fst (test c (bound_value b) st) = Inl e
                                  \<and> fst (otherwise pf h b w) = Inl e)"
proof -
  let ?d = "\<lparr>test = (\<lambda>value st. (Inr (VBoolean True), st)), select = (\<lambda>value st. Value value),
             handler = h\<rparr>"
  have d: "succeeds ?d (bound_value b) st" for st by (simp add: succeeds_def)
  from find_entry_last_resort [where d = ?d and v = "bound_value b" and cs = "cases b" and n = 0
      and w = w, OF d]
  show ?thesis
  proof
    assume "\<exists>i c w1. find_entry (cases b @ [?d]) 0 (bound_value b) w = (Inr (Some (i, c)), w1)"
    then show ?thesis by (auto simp: otherwise_def run_def builder_def)
  next
    assume "\<exists>c \<in> set (cases b). \<exists>st e. fst (test c (bound_value b) st) = Inl e
              \<and> fst (find_entry (cases b @ [?d]) 0 (bound_value b) w) = Inl e"
    then obtain c st e where c: "c \<in> set (cases b)" "fst (test c (bound_value b) st) = Inl e"
      "fst (find_entry (cases b @ [?d]) 0 (bound_value b) w) = Inl e"
      by blast
    have "fst (otherwise pf h b w) = Inl e"
      using c(3)
      by (cases "find_entry (cases b @ [?d]) 0 (bound_value b) w")
         (simp add: otherwise_def run_def builder_def)
    then show ?thesis using c(1,2) by blast
  qed
qed

lemma otherwise_returns:
  assumes "\<And>c st. c \<in> set (cases b) \<Longrightarrow> \<not> throws c (bound_value b) st"
  shows "\<exists>r. fst (otherwise pf h b w) = Inr r"
proof -
  have "fst (test c (bound_value b) st) \<noteq> Inl e" if "c \<in> set (cases b)" for c st e
    using assms [OF that, of st] by (auto simp: throws_def)
  then show ?thesis using otherwise_never_exhausted [of pf h b w] by blast
qed

lemma otherwise_default:
  assumes "\<And>e st. e \<in> set (cases b) \<Longrightarrow> rejects e (bound_value b) st"
  shows "fst (otherwise pf h b w) = Inr (call h [Value (bound_value b), Value (bound_value b)])"
proof -
  let ?d = "\<lparr>test = (\<lambda>value st. (Inr (VBoolean True), st)), select = (\<lambda>value st. Value value),
             handler = h\<rparr>"
  let ?b = "builder (bound_value b) (cases b @ [?d])"
  have 1: "cases ?b = cases b @ ?d # []" by (simp add: builder_def)
  have 2: "bound_value ?b = bound_value b" by (simp add: builder_def)
  have 3: "succeeds ?d (bound_value ?b) st" for st by (simp add: succeeds_def)
  from run_first [where b = ?b and pf = pf and w = w, OF 1 _ 3] assms
  show ?thesis unfolding 2 by (auto simp: otherwise_def)
qed

lemma otherwise_no_cases:
  "otherwise pf h (match v) w
   = (Inr (call h [Value v, Value v]), w\<lparr>trace := trace w @ [TestCalled 0, HandlerCalled 0]\<rparr>)"
  by (simp add: otherwise_def run_def match_def builder_def)

lemma run_unmatched:
  assumes "\<And>e st. e \<in> set (cases b) \<Longrightarrow> rejects e (bound_value b) st"
  shows "fst (run pf b w)
         = (case ToString pf (case JSON_stringify pf (bound_value b) of
                                Inr text \<Rightarrow> text | Inl e \<Rightarrow> bound_value b) of
              Inl e \<Rightarrow> Inl e
            | Inr text \<Rightarrow> Inl (Error (''Pattern matching error: no pattern matches value '' @ text)))"
proof -
  obtain w1 where "find_entry (cases b) 0 (bound_value b) w = (Inr None, w1)"
    using find_entry_none [where cs = "cases b" and v = "bound_value b" and w = w, OF assms] by auto
  then show ?thesis by (simp add: run_def)
qed

lemma run_matched:
  assumes "e \<in> set (cases b)" and "\<And>st. succeeds e (bound_value b) st"
    and "\<And>c st. c \<in> set (cases b) \<Longrightarrow> \<not> throws c (bound_value b) st"
  shows "\<exists>r. fst (run pf b w) = Inr r"
proof -
  have "\<exists>i c w1. find_entry cs n (bound_value b) w = (Inr (Some (i, c)), w1)"
    if "e \<in> set cs" "set cs \<subseteq> set (cases b)" for cs n w
    using that
  proof (induction cs arbitrary: n w)
    case Nil
    then show ?case by simp
  next
    case (Cons c cs)
    obtain r st where t: "test c (bound_value b) (store w) = (r, st)"
      by (cases "test c (bound_value b) (store w)")
    have "\<not> throws c (bound_value b) (store w)" using assms(3) Cons.prems(2) by simp
    then obtain x where x: "r = Inr x" using t by (cases r) (auto simp: throws_def)
    show ?case
    proof (cases "truthy x")
      case True
      then show ?thesis using t x by simp
    next
      case False
      then have "e \<noteq> c" using succeedsD [OF assms(2), of "store w"] t x by auto
      then have "e \<in> set cs" using Cons.prems(1) by simp
      from Cons.IH [OF this, of "Suc n" "w\<lparr>store := st, trace := trace w @ [TestCalled n]\<rparr>"]
        Cons.prems(2)
      show ?thesis using t x False by simp
    qed
  qed
  from this [OF assms(1) subset_refl, of 0 w] show ?thesis by (auto simp: run_def)
qed

lemma no_cases_error:
  "fst (run pf (match v) w)
   = (if \<not> serializable v
      then (if stringable v
            then Inl (Error (''Pattern matching error: no pattern matches value '' @ string_text pf v))
            else Inl TypeError)
      else if v = VUndefined \<or> isSymbol v \<or> (\<exists>f. v = VFunction f)
      then Inl (Error ''Pattern matching error: no pattern matches value undefined'')
      else Inl (Error (''Pattern matching error: no pattern matches value '' @ json_text pf v)))"
  by (cases v) (auto simp: run_def match_def builder_def JSON_stringify_def ToString_def isSymbol_def)

text \<open>
  C2, at the value \<^verbatim>\<open>[Symbol(), 10n]\<close>. With no case that matches, \<^verbatim>\<open>run\<close> and
  \<^verbatim>\<open>exhaustive\<close> do not throw the error with the message \<^verbatim>\<open>Pattern matching error: no
  pattern matches value ...\<close>: \<^verbatim>\<open>JSON.stringify\<close> throws on the BigInt, the \<^verbatim>\<open>catch\<close> falls
  back to the value itself, and the template literal, which is outside the \<^verbatim>\<open>try\<close>, throws
  a \<^verbatim>\<open>TypeError\<close> on the symbol.
\<close>

theorem run_fails_secondarily:
  "fst (run pf (match (VArray [VSymbol 0, VBigInt 10])) w) = Inl TypeError
   \<and> fst (exhaustive pf (match (VArray [VSymbol 0, VBigInt 10])) w) = Inl TypeError
   \<and> JSON_stringify pf (VArray [VSymbol 0, VBigInt 10]) = Inl TypeError
   \<and> ToString pf (VArray [VSymbol 0, VBigInt 10]) = Inl TypeError"
  by (simp add: run_def exhaustive_def match_def builder_def JSON_stringify_def ToString_def)

subsection \<open>Accumulating cases\<close>

text \<open>
  C9. \<^verbatim>\<open>with\<close> and \<^verbatim>\<open>when\<close> return a builder that has the bound value of the builder
  they were called on and its cases plus one, appended at the end, with the given handler.
  The builder they were called on keeps its cases: extended a second and a third time, it
  again gives its own cases plus the one new case, and the new cases of two \<^verbatim>\<open>with\<close> calls
  write to different \<^verbatim>\<open>selected\<close> objects.
\<close>

theorem builder_extension:
  assumes "builder_with args1 h1 b w = (b1, w1)"
    and "builder_with args2 h2 b w1 = (b2, w2)"
    and "builder_when g h3 b w2 = (b3, w3)"
  shows "\<exists>c1 c2 c3.
           cases b1 = cases b @ [c1] \<and> handler c1 = h1 \<and> bound_value b1 = bound_value b
         \<and> cases b2 = cases b @ [c2] \<and> handler c2 = h2 \<and> bound_value b2 = bound_value b
         \<and> cases b3 = cases b @ [c3] \<and> handler c3 = h3 \<and> bound_value b3 = bound_value b
         \<and> test c1 = doesMatch (fst (with_arguments args1)) (snd (with_arguments args1)) (fresh w)
         \<and> test c2 = doesMatch (fst (with_arguments args2)) (snd (with_arguments args2)) (Suc (fresh w))
         \<and> test c3 = (\<lambda>value st. (Inr (call g [Value value]), st))"
  using assms by (auto simp: builder_with_def builder_when_def builder_def split: prod.splits)

theorem builder_extension_witness:
  "let b = match (VNumber 1);
       w = \<lparr>store = (\<lambda>_. empty_object), fresh = 0, trace = []\<rparr>;
       (b1, w1) = builder_with [PatternArg (Literal (VNumber 1))] (JSFunction 1 (\<lambda>_. VString ''a'')) b w;
       (b2, w2) = builder_with [PatternArg (Literal (VNumber 2))] (JSFunction 2 (\<lambda>_. VString ''b'')) b w1;
       (b3, w3) = builder_when (JSFunction 3 (\<lambda>_. VBoolean True)) (JSFunction 4 (\<lambda>_. VString ''c'')) b w2
   in cases b = [] \<and> length (cases b1) = 1 \<and> length (cases b2) = 1 \<and> length (cases b3) = 1
      \<and> handler (cases b1 ! 0) = JSFunction 1 (\<lambda>_. VString ''a'')
      \<and> handler (cases b2 ! 0) = JSFunction 2 (\<lambda>_. VString ''b'')
      \<and> handler (cases b3 ! 0) = JSFunction 4 (\<lambda>_. VString ''c'')"
  using builder_extension [where b = "match (VNumber 1)"
      and w = "\<lparr>store = (\<lambda>_. empty_object), fresh = 0, trace = []\<rparr>"
      and ?args1.0 = "[PatternArg (Literal (VNumber 1))]" and ?h1.0 = "JSFunction 1 (\<lambda>_. VString ''a'')"
      and ?args2.0 = "[PatternArg (Literal (VNumber 2))]" and ?h2.0 = "JSFunction 2 (\<lambda>_. VString ''b'')"
      and g = "JSFunction 3 (\<lambda>_. VBoolean True)" and ?h3.0 = "JSFunction 4 (\<lambda>_. VString ''c'')",
      OF surjective_pairing surjective_pairing surjective_pairing]
  by (auto simp: Let_def case_prod_beta match_def builder_def)

text \<open>
  C10. \<^verbatim>\<open>with\<close> and \<^verbatim>\<open>when\<close> call no test and no handler: the trace is as before.
  \<^verbatim>\<open>with\<close> allocates the empty \<^verbatim>\<open>selected\<close> object of the new case and changes no existing
  one; \<^verbatim>\<open>when\<close> changes nothing at all. Both only record the new case. Tests and handlers
  are called by the resolvers: \<^verbatim>\<open>run\<close> on the extended builder, and \<^verbatim>\<open>otherwise\<close> on any
  builder, start by calling the test of the first case.
\<close>

theorem accumulation_runs_nothing:
  assumes "builder_with args h b w = (b1, w1)"
    and "builder_when g h' b w = (b2, w2)"
  shows "trace w1 = trace w \<and> (\<forall>a. a \<noteq> fresh w \<longrightarrow> store w1 a = store w a)
         \<and> store w1 (fresh w) = empty_object \<and> fresh w1 = Suc (fresh w)
         \<and> (\<exists>c. b1 = builder (bound_value b) (cases b @ [c]))
         \<and> w2 = w \<and> (\<exists>c. b2 = builder (bound_value b) (cases b @ [c]))
         \<and> (\<exists>evs. trace (snd (run pf b1 w1)) = trace w @ TestCalled 0 # evs)
         \<and> (\<exists>evs. trace (snd (otherwise pf h'' b w)) = trace w @ TestCalled 0 # evs)"
proof -
  have run_trace: "\<exists>evs. trace (snd (run pf x u)) = trace u @ TestCalled 0 # evs"
    if ne: "cases x \<noteq> []" for x u
  proof -
    have fe: "\<exists>evs. trace (snd (find_entry cs n v u)) = trace u @ evs" for cs n v u
    proof (induction cs arbitrary: n u)
      case Nil
      show ?case by simp
    next
      case (Cons c cs)
      obtain r st where t: "test c v (store u) = (r, st)" by (cases "test c v (store u)")
      show ?case
      proof (cases r)
        case (Inl e)
        then show ?thesis using t by simp
      next
        case (Inr x)
        show ?thesis
        proof (cases "truthy x")
          case True
          then show ?thesis using t Inr by simp
        next
          case False
          from Cons [of "Suc n" "u\<lparr>store := st, trace := trace u @ [TestCalled n]\<rparr>"]
          show ?thesis using t Inr False by auto
        qed
      qed
    qed
    obtain c cs where cs: "cases x = c # cs" using ne by (cases "cases x") auto
    obtain r st where t: "test c (bound_value x) (store u) = (r, st)"
      by (cases "test c (bound_value x) (store u)")
    let ?u = "u\<lparr>store := st, trace := trace u @ [TestCalled 0]\<rparr>"
    obtain evs where evs: "trace (snd (find_entry cs (Suc 0) (bound_value x) ?u)) = trace ?u @ evs"
      using fe by blast
    show ?thesis
      using cs t evs
      by (cases "find_entry cs (Suc 0) (bound_value x) ?u")
         (auto simp: run_def Let_def split: prod.splits option.splits sum.splits)
  qed
  have 1: "cases b1 \<noteq> []" and 2: "trace w1 = trace w"
    using assms(1) by (auto simp: builder_with_def builder_def split: prod.splits)
  have 3: "\<exists>evs. trace (snd (otherwise pf h'' b w)) = trace w @ TestCalled 0 # evs"
    unfolding otherwise_def by (rule run_trace) (simp add: builder_def)
  show ?thesis
    using assms run_trace [OF 1, of w1] 2 3
    by (auto simp: builder_with_def builder_when_def split: prod.splits)
qed

theorem accumulation_runs_nothing_witness:
  "let pf = \<lparr>json_text = (\<lambda>_. []), string_text = (\<lambda>_. [])\<rparr>;
       b = match (VNumber 1);
       w = \<lparr>store = (\<lambda>_. empty_object), fresh = 0, trace = []\<rparr>;
       (b1, w1) = builder_with [PatternArg (Literal (VNumber 1))] (JSFunction 1 (\<lambda>_. VString ''a'')) b w;
       (b2, w2) = builder_when (JSFunction 2 (\<lambda>_. VBoolean True)) (JSFunction 3 (\<lambda>_. VString ''b'')) b w
   in trace w1 = [] \<and> trace w2 = [] \<and> w2 = w \<and> fresh w1 = 1 \<and> store w1 0 = empty_object
      \<and> length (cases b1) = 1 \<and> length (cases b2) = 1
      \<and> trace (snd (run pf b1 w1)) = [TestCalled 0, HandlerCalled 0]
      \<and> trace (snd (otherwise pf (JSFunction 4 (\<lambda>_. VString ''c'')) b w)) = [TestCalled 0, HandlerCalled 0]"
  using accumulation_runs_nothing [where b = "match (VNumber 1)"
      and w = "\<lparr>store = (\<lambda>_. empty_object), fresh = 0, trace = []\<rparr>"
      and args = "[PatternArg (Literal (VNumber 1))]" and h = "JSFunction 1 (\<lambda>_. VString ''a'')"
      and g = "JSFunction 2 (\<lambda>_. VBoolean True)" and h' = "JSFunction 3 (\<lambda>_. VString ''b'')"
      and h'' = "JSFunction 4 (\<lambda>_. VString ''c'')"
      and pf = "\<lparr>json_text = (\<lambda>_. []), string_text = (\<lambda>_. [])\<rparr>",
      OF surjective_pairing surjective_pairing]
  by (simp add: Let_def case_prod_beta match_def builder_def builder_with_def builder_when_def
      with_arguments_def run_def otherwise_def doesMatch_def)

subsection \<open>Cases built by \<^verbatim>\<open>with\<close>\<close>



lemma doesMatch_frame:
  "a \<noteq> selected \<Longrightarrow> snd (doesMatch patterns predicates selected v st) a = st a"
  by (simp add: doesMatch_def split: prod.splits sum.splits)

lemma matches_Literal [simp]: "matches (Literal l) v = (v = l)"
  by (simp add: matches_def)



text \<open>
  The test of a case built by \<^verbatim>\<open>with\<close> from ordinary patterns does not throw when the
  case's \<^verbatim>\<open>selected\<close> is clean, as \<^verbatim>\<open>with\<close> creates it, and leaves it clean.
\<close>

lemma doesMatch_returns:
  assumes "\<forall>p \<in> set patterns. ordinary p" and "clean_object (st selected)"
  shows "\<exists>r. fst (doesMatch patterns predicates selected v st) = Inr r"
    and "clean_object (snd (doesMatch patterns predicates selected v st) selected)"
proof -
  have "\<exists>m s'. Array_some (\<lambda>p. matchPattern p v) patterns (Assign (st selected)) = (Inr m, s')
               \<and> clean s'"
    by (rule Array_some_clean) (use assms ordinary_returns(1) in \<open>auto simp: clean_def\<close>)
  then obtain m s' where "Array_some (\<lambda>p. matchPattern p v) patterns (Assign (st selected)) = (Inr m, s')"
    "clean s'" by auto
  then show "\<exists>r. fst (doesMatch patterns predicates selected v st) = Inr r"
    and "clean_object (snd (doesMatch patterns predicates selected v st) selected)"
    by (simp_all add: doesMatch_def clean_def)
qed

lemma with_test_returns:
  assumes "builder_with args h b w = (b1, w1)"
    and "\<forall>a \<in> set args. ordinary (as_pattern a)"
    and "clean_object (st (fresh w))"
  shows "\<not> throws (last (cases b1)) v st"
    and "clean_object (snd (test (last (cases b1)) v st) (fresh w))"
proof -
  obtain ps gs where wa: "with_arguments args = (ps, gs)" by (cases "with_arguments args")
  have "set ps \<subseteq> as_pattern ` set args"
    using wa by (auto simp: with_arguments_def split: list.splits arg.splits)
  then have ps: "\<forall>p \<in> set ps. ordinary p" using assms(2) by auto
  have t: "test (last (cases b1)) = doesMatch ps gs (fresh w)"
    using assms(1) wa by (auto simp: builder_with_def builder_def)
  from doesMatch_returns [where patterns = ps and st = st and selected = "fresh w"
      and predicates = gs and v = v, OF ps assms(3)]
  show "\<not> throws (last (cases b1)) v st"
    and "clean_object (snd (test (last (cases b1)) v st) (fresh w))"
    by (auto simp: throws_def t)
qed

text \<open>
  The test of a case built by \<^verbatim>\<open>with\<close> leaves the prototype of the case's \<^verbatim>\<open>selected\<close>
  object as it is, whatever the value and whether it returns or throws, when no listed
  pattern has the selection key \<^verbatim>\<open>__proto__\<close>.
\<close>

lemma prototype_kept:
  assumes "\<forall>p \<in> set patterns. ''__proto__'' \<notin> set (getSelectionKeys p)"
  shows "proto (snd (doesMatch patterns predicates selected v st) selected) = proto (st selected)"
proof -
  have "slot ''__proto__'' (snd (Array_some (\<lambda>p. matchPattern p v) patterns (Assign (st selected))))
        = slot ''__proto__'' (Assign (st selected))"
    by (rule Array_some_preserves) (use assms writes_within_keys(1) in auto)
  then show ?thesis
    by (cases "Array_some (\<lambda>p. matchPattern p v) patterns (Assign (st selected))")
       (auto simp: doesMatch_def slot_def split: sum.splits)
qed







subsection \<open>Several patterns in one \<^verbatim>\<open>with\<close>\<close>

text \<open>
  C4, at \<^verbatim>\<open>with({a: select('x'), b: 'foo'}, {b: 'bar'}, h)\<close> on \<^verbatim>\<open>{a: 1, b: 'bar'}\<close>. The
  first pattern selects \<^verbatim>\<open>x\<close> from the field \<^verbatim>\<open>a\<close> and fails on the field \<^verbatim>\<open>b\<close>; the
  second pattern matches and selects nothing. The handler is called on \<^verbatim>\<open>{x: 1}\<close>, the
  partial selection of the pattern that failed, not on the whole value: all listed
  patterns write to the one \<^verbatim>\<open>selected\<close> of the case, which is not reset between them.
  When the same failed pattern is wrapped in \<^verbatim>\<open>intersection\<close>, whose selections are
  forwarded only on a match, the handler is called on the whole value.
\<close>

theorem with_failed_pattern_leaks:
  "let pf = \<lparr>json_text = (\<lambda>_. []), string_text = (\<lambda>_. [])\<rparr>;
       w = \<lparr>store = (\<lambda>_. empty_object), fresh = 0, trace = []\<rparr>;
       v = VObject [(''a'', VNumber 1), (''b'', VString ''bar'')];
       q = ObjectShape [(''a'', P_select (Some ''x'')), (''b'', Literal (VString ''foo''))];
       p = ObjectShape [(''b'', Literal (VString ''bar''))];
       (b1, w1) = builder_with [PatternArg q, PatternArg p] (JSFunction 1 list_arguments) (match v) w;
       (b2, w2) = builder_with [PatternArg (P_intersection [q]), PatternArg p]
                    (JSFunction 1 list_arguments) (match v) w
   in matchPattern q v (Assign empty_object)
        = (Inr False, Assign \<lparr>own = [(''x'', VNumber 1)], proto = ObjectPrototype\<rparr>)
      \<and> matchPattern p v (Assign empty_object) = (Inr True, Assign empty_object)
      \<and> fst (run pf b1 w1) = Inr (VArray [VObject [(''x'', VNumber 1)], v])
      \<and> fst (run pf b2 w2) = Inr (VArray [v, v])"
  by (simp add: Let_def builder_with_def with_arguments_def match_def builder_def run_def
      doesMatch_def with_select_def call_def deliver_def select_match_def property_def
      assign_def anonymousSelectKey_def empty_object_def lookup_anonymous_def
      inherited_anonymous_def list_arguments_def own_properties_def reaches_proto_setter_def
      inherits_readonly_def)

section \<open>The examples of the specification\<close>

text \<open>
  The end-to-end examples and the examples of optional, intersection and negation that the
  specification lists as testable properties, evaluated on the model.
\<close>

lemma example_exhaustive_literals:
  "let pf = \<lparr>json_text = (\<lambda>_. []), string_text = (\<lambda>_. [])\<rparr>;
       w = \<lparr>store = (\<lambda>_. empty_object), fresh = 0, trace = []\<rparr>;
       (b1, w1) = builder_with [PatternArg (Literal (VString ''A''))]
                    (JSFunction 1 (\<lambda>_. VString ''a'')) (match (VString ''B'')) w;
       (b2, w2) = builder_with [PatternArg (Literal (VString ''B''))]
                    (JSFunction 2 (\<lambda>_. VString ''b'')) b1 w1
   in fst (exhaustive pf b2 w2) = Inr (VString ''b'')"
  by (simp add: Let_def builder_with_def with_arguments_def match_def builder_def exhaustive_def
      run_def doesMatch_def with_select_def call_def empty_object_def)

lemma example_union_in_object:
  "let pf = \<lparr>json_text = (\<lambda>_. []), string_text = (\<lambda>_. [])\<rparr>;
       w = \<lparr>store = (\<lambda>_. empty_object), fresh = 0, trace = []\<rparr>;
       (b1, w1) = builder_with
                    [PatternArg (ObjectShape
                       [(''type'', P_union [Literal (VString ''x''), Literal (VString ''y'')])])]
                    (JSFunction 1 (\<lambda>_. VString ''matched''))
                    (match (VObject [(''type'', VString ''x'')])) w
   in fst (exhaustive pf b1 w1) = Inr (VString ''matched'')"
  by (simp add: Let_def builder_with_def with_arguments_def match_def builder_def exhaustive_def
      run_def doesMatch_def with_select_def call_def deliver_def flatMap_def property_def
      empty_object_def)

lemma example_array_of_positive:
  "let pf = \<lparr>json_text = (\<lambda>_. []), string_text = (\<lambda>_. [])\<rparr>;
       w = \<lparr>store = (\<lambda>_. empty_object), fresh = 0, trace = []\<rparr>;
       positive = (\<lambda>n. case n of VNumber i \<Rightarrow> 0 < i | _ \<Rightarrow> False);
       (b1, w1) = builder_with [PatternArg (P_array (P_when positive))]
                    (JSFunction 1 (\<lambda>_. VString ''all positive''))
                    (match (VArray [VNumber 1, VNumber 2, VNumber 3])) w
   in fst (exhaustive pf b1 w1) = Inr (VString ''all positive'')"
  by (simp add: Let_def builder_with_def with_arguments_def match_def builder_def exhaustive_def
      run_def doesMatch_def with_select_def call_def deliver_def when_match_def empty_object_def)

lemma example_optional_field:
  "matches (ObjectShape [(''greeting'', P_optional (Literal (VString ''Hello'')))]) (VObject [])
   \<and> matches (ObjectShape [(''greeting'', P_optional (Literal (VString ''Hello'')))])
         (VObject [(''greeting'', VString ''Hello'')])
   \<and> \<not> matches (ObjectShape [(''greeting'', P_optional (Literal (VString ''Hello'')))])
         (VObject [(''greeting'', VString ''Bye'')])"
  by (simp add: matches_def deliver_def property_def empty_object_def)

lemma example_intersection_last_write:
  "intersection_match [ObjectShape [(''a'', P_select (Some ''x''))],
                       ObjectShape [(''b'', P_select (Some ''x''))]]
     (VObject [(''a'', VNumber 1), (''b'', VNumber 2)])
   = Inr \<lparr>matched = True,
          selections = Some \<lparr>own = [(''x'', VNumber 2)], proto = ObjectPrototype\<rparr>\<rparr>"
  by (simp add: deliver_def select_match_def property_def assign_def empty_object_def
      reaches_proto_setter_def inherits_readonly_def)

lemma example_not_captures_nothing:
  "matchPattern (P_not (P_select key)) v selector = (Inr False, selector)
   \<and> matchPattern (P_not (P_not (P_select key))) v selector = (Inr True, selector)
   \<and> getSelectionKeys (P_not p) = []"
  by (simp add: deliver_def select_match_def)

subsection \<open>Selecting under the names of inherited properties\<close>

text \<open>
  A capture under \<^verbatim>\<open>__proto__\<close> adds no key to \<^verbatim>\<open>selected\<close>: a primitive is dropped,
  and the handler is called on the whole value; an object becomes the prototype of
  \<^verbatim>\<open>selected\<close>, and an anonymous key it holds is found by the \<^verbatim>\<open>in\<close> test of \<^verbatim>\<open>select\<close>.
  A capture under \<^verbatim>\<open>constructor\<close> shadows the inherited property. A pattern of \<^verbatim>\<open>with\<close>
  that throws ends the test, also when a pattern listed after it matches. Once a function
  has become the prototype, a capture under \<^verbatim>\<open>name\<close> throws, although the pattern
  matches with a selector that does nothing.
\<close>

lemma example_select_proto_primitive:
  "let pf = \<lparr>json_text = (\<lambda>_. []), string_text = (\<lambda>_. [])\<rparr>;
       w = \<lparr>store = (\<lambda>_. empty_object), fresh = 0, trace = []\<rparr>;
       (b1, w1) = builder_with [PatternArg (P_select (Some ''__proto__''))]
                    (JSFunction 1 list_arguments) (match (VNumber 5)) w;
       (r, w2) = run pf b1 w1
   in r = Inr (VArray [VNumber 5, VNumber 5]) \<and> store w2 0 = empty_object"
  by (simp add: Let_def builder_with_def with_arguments_def match_def builder_def run_def
      doesMatch_def with_select_def call_def deliver_def select_match_def assign_def
      empty_object_def list_arguments_def own_properties_def reaches_proto_setter_def
      is_object_or_null_def)

lemma example_select_proto_object:
  "let pf = \<lparr>json_text = (\<lambda>_. []), string_text = (\<lambda>_. [])\<rparr>;
       w = \<lparr>store = (\<lambda>_. empty_object), fresh = 0, trace = []\<rparr>;
       v = VObject [(''a'', VObject [(anonymousSelectKey, VNumber 7)]), (''b'', VNumber 2)];
       (b1, w1) = builder_with
                    [PatternArg (ObjectShape [(''a'', P_select (Some ''__proto__'')),
                                              (''b'', P_select (Some ''x''))])]
                    (JSFunction 1 list_arguments) (match v) w;
       (r, w2) = run pf b1 w1
   in r = Inr (VArray [VNumber 7, v])
      \<and> store w2 0 = \<lparr>own = [(''x'', VNumber 2)],
                       proto = ReplacedBy (VObject [(anonymousSelectKey, VNumber 7)])\<rparr>"
  by (simp add: Let_def builder_with_def with_arguments_def match_def builder_def run_def
      doesMatch_def with_select_def call_def deliver_def select_match_def assign_def
      empty_object_def list_arguments_def own_properties_def reaches_proto_setter_def
      is_object_or_null_def property_def lookup_anonymous_def inherited_anonymous_def
      inherits_readonly_def anonymousSelectKey_def)

lemma example_select_constructor:
  "let pf = \<lparr>json_text = (\<lambda>_. []), string_text = (\<lambda>_. [])\<rparr>;
       w = \<lparr>store = (\<lambda>_. empty_object), fresh = 0, trace = []\<rparr>;
       (b1, w1) = builder_with [PatternArg (P_select (Some ''constructor''))]
                    (JSFunction 1 list_arguments) (match (VNumber 5)) w
   in fst (run pf b1 w1) = Inr (VArray [VObject [(''constructor'', VNumber 5)], VNumber 5])"
  by (simp add: Let_def builder_with_def with_arguments_def match_def builder_def run_def
      doesMatch_def with_select_def call_def deliver_def select_match_def assign_def
      empty_object_def list_arguments_def own_properties_def reaches_proto_setter_def
      lookup_anonymous_def inherited_anonymous_def inherits_readonly_def anonymousSelectKey_def)

lemma example_throwing_pattern_first:
  "let pf = \<lparr>json_text = (\<lambda>_. []), string_text = (\<lambda>_. [])\<rparr>;
       w = \<lparr>store = (\<lambda>_. empty_object), fresh = 0, trace = []\<rparr>;
       v = VArray [VNumber 1];
       (b1, w1) = builder_with [PatternArg (P_array (P_select (Some ''constructor''))),
                                PatternArg (P_array P_any)]
                    (JSFunction 1 list_arguments) (match v) w
   in matches (P_array P_any) v
      \<and> throws (cases b1 ! 0) v (store w1)
      \<and> fst (run pf b1 w1) = Inl TypeError"
  by (simp add: Let_def builder_with_def with_arguments_def match_def builder_def run_def
      doesMatch_def deliver_def select_match_def collect_def Object_prototype_keys_def
      matches_def throws_def P_any_def when_match_def isUnknown_def)

lemma example_function_prototype:
  "let v = VObject [(''a'', VFunction 3), (''b'', VNumber 1)];
       p = ObjectShape [(''a'', P_select (Some ''__proto__'')), (''b'', P_select (Some ''name''))]
   in matchPattern p v (Assign empty_object)
        = (Inl TypeError, Assign \<lparr>own = [], proto = ReplacedBy (VFunction 3)\<rparr>)
      \<and> matches p v"
  by (simp add: Let_def matches_def deliver_def select_match_def assign_def property_def
      empty_object_def reaches_proto_setter_def is_object_or_null_def inherits_readonly_def
      readonly_function_keys_def)

end
